theory Spec2Isabelle
  imports Complex_Main "HOL-Library.Char_ord" "HOL-Library.List_Lexorder"
begin

section \<open>Python values\<close>

text \<open>
  The client handles whatever the backend sends, so the values are those of a decoded JSON
  document: \<open>None\<close>, booleans, numbers, strings, lists and dicts. A dict is an association
  list in insertion order (its keys are distinct in every dict Python builds; \<open>d.get(k)\<close>
  is \<open>map_of\<close>). A number is the rational it denotes: Python's \<open>int\<close> and \<open>float\<close> agree
  on truth value, equality and order, which is all this code asks of a number.
  Strings are lists of code points below 256.
\<close>

datatype json =
    JNull
  | JBool bool
  | JNum rat
  | JStr string
  | JList "json list"
  | JObj "(string \<times> json) list"

text \<open>The exceptions the code can raise or let through.\<close>

datatype error =
    AttributeError
  | TypeError
  | ValueError
  | KeyError
  | IndexError
  | OSError
  | HTTPError
  | ConnectionError
  | TimeoutError

text \<open>Truth value of a Python object, as \<open>if x\<close>, \<open>x or y\<close> and \<open>not x\<close> test it.\<close>

fun truthy :: "json \<Rightarrow> bool" where
  "truthy JNull = False"
| "truthy (JBool b) = b"
| "truthy (JNum n) = (n \<noteq> 0)"
| "truthy (JStr s) = (s \<noteq> [])"
| "truthy (JList xs) = (xs \<noteq> [])"
| "truthy (JObj kvs) = (kvs \<noteq> [])"

text \<open>\<open>a or b\<close>: the first operand when it is true, else the second.\<close>

definition py_or :: "json \<Rightarrow> json \<Rightarrow> json" where
  "py_or a b = (if truthy a then a else b)"

text \<open>\<open>d.get(k)\<close> and \<open>d.get(k, default)\<close> on a dict.\<close>

definition dict_get :: "(string \<times> json) list \<Rightarrow> string \<Rightarrow> json" where
  "dict_get d k = (case map_of d k of None \<Rightarrow> JNull | Some v \<Rightarrow> v)"

definition dict_get_default :: "(string \<times> json) list \<Rightarrow> string \<Rightarrow> json \<Rightarrow> json" where
  "dict_get_default d k dflt = (case map_of d k of None \<Rightarrow> dflt | Some v \<Rightarrow> v)"

text \<open>\<open>x.get(k)\<close> on any object: only a dict has the method.\<close>

fun obj_get :: "json \<Rightarrow> string \<Rightarrow> error + json" where
  "obj_get (JObj d) k = Inr (dict_get d k)"
| "obj_get _ k = Inl AttributeError"

text \<open>A list comprehension \<open>[f(i) for i in xs]\<close> stops at the first element that raises.\<close>

fun map_result :: "('a \<Rightarrow> error + 'b) \<Rightarrow> 'a list \<Rightarrow> error + 'b list" where
  "map_result f [] = Inr []"
| "map_result f (x # xs) =
     (case f x of
        Inl e \<Rightarrow> Inl e
      | Inr y \<Rightarrow> (case map_result f xs of Inl e \<Rightarrow> Inl e | Inr ys \<Rightarrow> Inr (y # ys)))"

section \<open>Strings and paths\<close>

text \<open>
  \<open>str.isspace\<close> (which \<open>str.strip()\<close> and the regular expression's \<open>\s\<close> use) and the
  regular expression's \<open>\d\<close>, on code points below 256.
\<close>

definition isspace :: "char \<Rightarrow> bool" where
  "isspace c =
     (let n = (of_char c :: nat)
      in (9 \<le> n \<and> n \<le> 13) \<or> (28 \<le> n \<and> n \<le> 32) \<or> n = 133 \<or> n = 160)"

definition isdigit :: "char \<Rightarrow> bool" where
  "isdigit c = (let n = (of_char c :: nat) in 48 \<le> n \<and> n \<le> 57)"

text \<open>
  \<open>str.lower()\<close>: the upper-case letters below 256 are \<open>A\<close> to \<open>Z\<close> and the code points
  192 to 222 without 215; each becomes lower case by setting the bit of value 32.
\<close>

definition isupper :: "char \<Rightarrow> bool" where
  "isupper c =
     (let n = (of_char c :: nat)
      in (65 \<le> n \<and> n \<le> 90) \<or> (192 \<le> n \<and> n \<le> 222 \<and> n \<noteq> 215))"

fun set_bit5 :: "char \<Rightarrow> char" where
  "set_bit5 (Char b0 b1 b2 b3 b4 b5 b6 b7) = Char b0 b1 b2 b3 b4 True b6 b7"

definition lower_char :: "char \<Rightarrow> char" where
  "lower_char c = (if isupper c then set_bit5 c else c)"

definition lower :: "string \<Rightarrow> string" where
  "lower s = map lower_char s"

definition strip :: "string \<Rightarrow> string" where
  "strip s = rev (dropWhile isspace (rev (dropWhile isspace s)))"

text \<open>\<open>s.split(c)\<close>: the pieces between the occurrences of \<open>c\<close>, empty ones included.\<close>

fun split_on :: "char \<Rightarrow> string \<Rightarrow> string list" where
  "split_on c [] = [[]]"
| "split_on c (x # xs) =
     (if x = c then [] # split_on c xs
      else (case split_on c xs of
              [] \<Rightarrow> [[x]]
            | w # ws \<Rightarrow> (x # w) # ws))"

text \<open>
  \<open>Path(p).name\<close> for a POSIX path: the path is cut at \<open>/\<close>, empty components and \<open>.\<close>
  components are dropped, and the name is the last component left, or the empty string.
\<close>

definition path_name :: "string \<Rightarrow> string" where
  "path_name p =
     (case filter (\<lambda>c. c \<noteq> [] \<and> c \<noteq> ''.'') (split_on CHR ''/'' p) of
        [] \<Rightarrow> []
      | c # cs \<Rightarrow> last (c # cs))"

text \<open>\<open>base.rsplit('.', 1)\<close> for a \<open>base\<close> that contains a dot: cut at the last dot.\<close>

definition rsplit_dot :: "string \<Rightarrow> string \<times> string" where
  "rsplit_dot base =
     (rev (tl (dropWhile (\<lambda>c. c \<noteq> CHR ''.'') (rev base))),
      rev (takeWhile (\<lambda>c. c \<noteq> CHR ''.'') (rev base)))"

text \<open>
  \<open>re.sub(r'\s*\(\d+\)\s*$', '', name_part)\<close>. The pattern is anchored at the end, so it
  is matched from the end of the string: white space, a closing bracket, one or more digits,
  an opening bracket, and then all the white space before it (the leftmost match takes it
  all). Without a match the string is returned as it is.
\<close>

definition re_sub_suffix :: "string \<Rightarrow> string" where
  "re_sub_suffix s =
     (case dropWhile isspace (rev s) of
        [] \<Rightarrow> s
      | c # r2 \<Rightarrow>
          if c = CHR '')'' \<and> takeWhile isdigit r2 \<noteq> []
          then (case dropWhile isdigit r2 of
                  [] \<Rightarrow> s
                | d # r4 \<Rightarrow> if d = CHR ''('' then rev (dropWhile isspace r4) else s)
          else s)"

text \<open>The local function \<open>normalize_filename\<close> of \<open>find_source_for_file\<close>.\<close>

definition normalize_filename :: "string \<Rightarrow> string" where
  "normalize_filename fname =
     (let base = path_name fname
      in if CHR ''.'' \<in> set base
         then (let (name_part, ext) = rsplit_dot base;
                   name_part = strip (re_sub_suffix name_part)
               in lower (name_part @ ''.'' @ ext))
         else lower base)"

section \<open>Response normalizer (\<open>pdf_uploader.py\<close>)\<close>

text \<open>The dict built by \<open>_normalize_source_item\<close>: always the same fourteen keys.\<close>

record source =
  id_field :: json
  title :: json
  asset_file_path :: json
  asset_url :: json
  embedded :: json
  embedded_chunks :: json
  insights_count :: json
  created :: json
  updated :: json
  file_available :: json
  command_id :: json
  status :: json
  processing_info :: json
  raw :: json

text \<open>
  \<open>_normalize_source_item(item)\<close>. Its first statement is \<open>item.get("asset")\<close>, which raises
  AttributeError on anything that is not a dict. The asset's fields are read only when the
  asset is a dict.
\<close>

fun normalize_source_item :: "json \<Rightarrow> error + source" where
  "normalize_source_item (JObj item) =
     (let asset = py_or (dict_get item ''asset'') (JObj [])
      in Inr \<lparr> id_field = dict_get item ''id'',
               title = dict_get item ''title'',
               asset_file_path = (case asset of JObj a \<Rightarrow> dict_get a ''file_path'' | _ \<Rightarrow> JNull),
               asset_url = (case asset of JObj a \<Rightarrow> dict_get a ''url'' | _ \<Rightarrow> JNull),
               embedded = dict_get_default item ''embedded'' (JBool False),
               embedded_chunks = dict_get_default item ''embedded_chunks'' (JNum 0),
               insights_count = dict_get_default item ''insights_count'' (JNum 0),
               created = dict_get item ''created'',
               updated = dict_get item ''updated'',
               file_available = dict_get item ''file_available'',
               command_id = dict_get item ''command_id'',
               status = dict_get item ''status'',
               processing_info = dict_get item ''processing_info'',
               raw = JObj item \<rparr>)"
| "normalize_source_item _ = Inl AttributeError"

text \<open>
  The test of the last fallback of \<open>_normalize_sources\<close>:
  \<open>isinstance(v, list) and v and isinstance(v[0], dict) and "id" in v[0]\<close>.
\<close>

fun nested_source_list :: "json \<Rightarrow> bool" where
  "nested_source_list (JList (JObj d # rest)) = (map_of d ''id'' \<noteq> None)"
| "nested_source_list _ = False"

text \<open>
  \<open>_normalize_sources(data)\<close>, branch by branch in the order of the source: \<open>None\<close>, a list,
  a dict with a list under \<open>"results"\<close>, a dict with a true \<open>id\<close> or \<open>title\<close>, a dict with a
  nested list of sources (the first such value, in the dict's order), anything else.
\<close>

fun normalize_sources :: "json \<Rightarrow> error + source list" where
  "normalize_sources JNull = Inr []"
| "normalize_sources (JList xs) = map_result normalize_source_item xs"
| "normalize_sources (JObj d) =
     (case map_of d ''results'' of
        Some (JList rs) \<Rightarrow> map_result normalize_source_item rs
      | _ \<Rightarrow>
        if truthy (py_or (dict_get d ''id'') (dict_get d ''title''))
        then map_result normalize_source_item [JObj d]
        else (case find nested_source_list (map snd d) of
                Some (JList v) \<Rightarrow> map_result normalize_source_item v
              | _ \<Rightarrow> Inr []))"
| "normalize_sources _ = Inr []"

section \<open>The backend seen from the client\<close>

text \<open>
  What \<open>requests\<close> hands back: the \<open>ok\<close> flag, the status code, the body as text, what
  \<open>resp.json()\<close> returns (\<open>None\<close> here when it raises) and, for a streamed body, its lines.
\<close>

record response =
  resp_ok :: bool
  resp_status_code :: int
  resp_text :: string
  resp_json :: "json option"
  resp_lines :: "string list"

text \<open>A call of \<open>requests.get\<close> or \<open>requests.post\<close> returns a response or raises.\<close>

datatype reply = Reply response | Fails error

text \<open>The requests the client sends, one constructor for each endpoint and body it uses.\<close>

datatype request =
    GET_sources "string option"
  | POST_sources_file string string bool bool "json option"
  | GET_source_status string
  | GET_models_defaults
  | POST_source_chat_sessions string int json
  | POST_source_chat_messages string json string json
  | POST_search_ask_simple string json json json
  | POST_notebooks int
  | POST_notebook_source json string
  | POST_chat_context json string
  | POST_chat_sessions json int
  | POST_chat_execute json string json json

text \<open>The dict built by \<open>_wrap_response\<close>.\<close>

record wrapped =
  w_ok :: bool
  w_status_code :: int
  w_data :: json
  w_text :: string
  w_error :: json

definition wrap_response :: "response \<Rightarrow> wrapped" where
  "wrap_response resp =
     \<lparr> w_ok = resp_ok resp,
       w_status_code = resp_status_code resp,
       w_data = (if resp_text resp = [] then JNull
                 else (case resp_json resp of Some j \<Rightarrow> j | None \<Rightarrow> JStr (resp_text resp))),
       w_text = resp_text resp,
       w_error = JNull \<rparr>"

section \<open>Document matcher (\<open>find_source_for_file\<close>)\<close>

text \<open>The three lists a candidate can be appended to, or none of them.\<close>

datatype tier = Exact | Basename | Normalized | Unmatched

text \<open>
  The three tests of the loop that look into a field. \<open>Path(x)\<close> raises TypeError and
  \<open>x.lower()\<close> raises AttributeError when the (true) value \<open>x\<close> is not a string.
\<close>

fun path_basename_is :: "json \<Rightarrow> string \<Rightarrow> error + bool" where
  "path_basename_is (JStr fp) tb = Inr (fp \<noteq> [] \<and> lower (path_name fp) = tb)"
| "path_basename_is v tb = (if truthy v then Inl TypeError else Inr False)"

fun title_is :: "json \<Rightarrow> string \<Rightarrow> error + bool" where
  "title_is (JStr t) tb = Inr (t \<noteq> [] \<and> lower t = tb)"
| "title_is v tb = (if truthy v then Inl AttributeError else Inr False)"

fun title_normalizes_to :: "json \<Rightarrow> string \<Rightarrow> error + bool" where
  "title_normalizes_to (JStr t) tn = Inr (t \<noteq> [] \<and> normalize_filename t = tn)"
| "title_normalizes_to v tn = (if truthy v then Inl TypeError else Inr False)"

text \<open>The body of the loop for one candidate: the first test that holds decides.\<close>

definition match_tier :: "string \<Rightarrow> source \<Rightarrow> error + tier" where
  "match_tier target s =
     (let file_path = py_or (asset_file_path s) (JStr []);
          title' = py_or (title s) (JStr []);
          target_normalized = normalize_filename target;
          target_basename = lower (path_name target)
      in if truthy file_path \<and> file_path = JStr target then Inr Exact
         else (case path_basename_is file_path target_basename of
                 Inl e \<Rightarrow> Inl e
               | Inr True \<Rightarrow> Inr Basename
               | Inr False \<Rightarrow>
                   (case title_is title' target_basename of
                      Inl e \<Rightarrow> Inl e
                    | Inr True \<Rightarrow> Inr Basename
                    | Inr False \<Rightarrow>
                        (case title_normalizes_to title' target_normalized of
                           Inl e \<Rightarrow> Inl e
                         | Inr True \<Rightarrow> Inr Normalized
                         | Inr False \<Rightarrow> Inr Unmatched))))"

text \<open>
  The loop over the candidates, with the three lists \<open>exact_matches\<close>, \<open>basename_matches\<close>
  and \<open>normalized_matches\<close> as its state.
\<close>

fun match_loop ::
  "string \<Rightarrow> source list \<Rightarrow> source list \<times> source list \<times> source list
     \<Rightarrow> error + source list \<times> source list \<times> source list" where
  "match_loop target [] acc = Inr acc"
| "match_loop target (s # rest) (exact_matches, basename_matches, normalized_matches) =
     (case match_tier target s of
        Inl e \<Rightarrow> Inl e
      | Inr Exact \<Rightarrow>
          match_loop target rest (exact_matches @ [s], basename_matches, normalized_matches)
      | Inr Basename \<Rightarrow>
          match_loop target rest (exact_matches, basename_matches @ [s], normalized_matches)
      | Inr Normalized \<Rightarrow>
          match_loop target rest (exact_matches, basename_matches, normalized_matches @ [s])
      | Inr Unmatched \<Rightarrow>
          match_loop target rest (exact_matches, basename_matches, normalized_matches))"

text \<open>\<open>exact_matches or basename_matches or normalized_matches or []\<close>.\<close>

definition first_nonempty :: "'a list \<Rightarrow> 'a list \<Rightarrow> 'a list \<Rightarrow> 'a list" where
  "first_nonempty a b c = (if a \<noteq> [] then a else if b \<noteq> [] then b else if c \<noteq> [] then c else [])"

text \<open>The sort key: \<open>it.get("updated") or it.get("created") or ""\<close>.\<close>

definition sort_key_of :: "source \<Rightarrow> json" where
  "sort_key_of it = py_or (updated it) (py_or (created it) (JStr []))"

fun is_str :: "json \<Rightarrow> bool" where
  "is_str (JStr s) = True"
| "is_str _ = False"

fun is_num :: "json \<Rightarrow> bool" where
  "is_num (JNum n) = True"
| "is_num (JBool b) = True"
| "is_num _ = False"

fun str_val :: "json \<Rightarrow> string" where
  "str_val (JStr s) = s"
| "str_val _ = []"

fun num_val :: "json \<Rightarrow> rat" where
  "num_val (JNum n) = n"
| "num_val (JBool b) = (if b then 1 else 0)"
| "num_val _ = 0"

text \<open>
  \<open>results.sort(key=..., reverse=True)\<close>. Python's sort is stable, also with
  \<open>reverse=True\<close>: it reverses the list, sorts it ascending and reverses it again, so equal
  keys keep the order of the listing. Strings are compared code point by code point, numbers
  by value. A list of fewer than two elements is not compared at all. Keys that are neither
  all strings nor all numbers make \<open>sort\<close> raise TypeError: a string against a non-string,
  a number against a non-number and a dict against anything are not ordered. (Keys that are
  all JSON arrays are the one case left out: Python orders arrays member by member and raises
  only where two members are not ordered; they are reported as TypeError here as well.)
\<close>

definition sort_desc :: "source list \<Rightarrow> error + source list" where
  "sort_desc results =
     (if length results \<le> 1 then Inr results
      else if list_all (\<lambda>it. is_str (sort_key_of it)) results
      then Inr (rev (sort_key (\<lambda>it. str_val (sort_key_of it)) (rev results)))
      else if list_all (\<lambda>it. is_num (sort_key_of it)) results
      then Inr (rev (sort_key (\<lambda>it. num_val (sort_key_of it)) (rev results)))
      else Inl TypeError)"

text \<open>
  The part of \<open>find_source_for_file\<close> after the listing has been normalized: the loop, the
  choice of the list, the sort, and \<open>results[0]\<close>.
\<close>

definition select_match :: "string \<Rightarrow> source list \<Rightarrow> error + source option" where
  "select_match target candidates =
     (case match_loop target candidates ([], [], []) of
        Inl e \<Rightarrow> Inl e
      | Inr (exact_matches, basename_matches, normalized_matches) \<Rightarrow>
          (let results = first_nonempty exact_matches basename_matches normalized_matches
           in if results = [] then Inr None
              else (case sort_desc results of
                      Inl e \<Rightarrow> Inl e
                    | Inr [] \<Rightarrow> Inl IndexError
                    | Inr (r # rs) \<Rightarrow> Inr (Some r))))"

text \<open>
  \<open>find_source_for_file(filename_or_path, notebook_id)\<close> against a backend. The result
  comes with the list of the requests sent, in order. A listing that is not \<open>ok\<close> gives
  \<open>None\<close>; an exception of \<open>requests.get\<close> is not caught. \<open>listing_params\<close> is the
  \<open>params\<close> dict: the \<open>notebook_id\<close> when it is given and not empty.
\<close>

definition listing_params :: "string option \<Rightarrow> string option" where
  "listing_params notebook_id =
     (case notebook_id of
        None \<Rightarrow> None
      | Some n \<Rightarrow> if n \<noteq> [] then Some n else None)"

definition find_source_for_file ::
  "(request \<Rightarrow> reply) \<Rightarrow> string \<Rightarrow> string option \<Rightarrow> (error + source option) \<times> request list" where
  "find_source_for_file backend filename_or_path notebook_id =
     (let req = GET_sources (listing_params notebook_id)
      in (case backend req of
            Fails e \<Rightarrow> (Inl e, [req])
          | Reply resp \<Rightarrow>
              (let wrapped = wrap_response resp
               in if \<not> w_ok wrapped then (Inr None, [req])
                  else (case normalize_sources (w_data wrapped) of
                          Inl e \<Rightarrow> (Inl e, [req])
                        | Inr candidates \<Rightarrow> (select_match filename_or_path candidates, [req])))))"

text \<open>\<open>source_exists(filename)\<close>: \<open>found is not None\<close>.\<close>

definition source_exists :: "(request \<Rightarrow> reply) \<Rightarrow> string \<Rightarrow> (error + bool) \<times> request list" where
  "source_exists backend filename =
     (case find_source_for_file backend filename None of
        (Inl e, sent) \<Rightarrow> (Inl e, sent)
      | (Inr found, sent) \<Rightarrow> (Inr (found \<noteq> None), sent))"

section \<open>Uploader (\<open>upload_file_and_process\<close>)\<close>

text \<open>
  The two shapes of the dict returned: on success \<open>ok\<close> (true), \<open>status_code\<close>, \<open>sources\<close>
  and \<open>raw\<close>; on a response that is not \<open>ok\<close>, the wrapped response with an empty
  \<open>sources\<close> added.
\<close>

datatype upload_result =
    Success int "source list" json
  | Failure wrapped

text \<open>
  \<open>upload_file_and_process\<close>. \<open>readable\<close> stands for the local file system: whether
  \<open>open(file_path, "rb")\<close> succeeds. The matched record is a dict of fourteen keys, so
  \<open>if existing\<close> holds exactly when a record was found. \<open>upload_filename\<close> is
  \<open>title or Path(file_path).name\<close>; \<open>upload_request\<close> is the multipart request, with the
  \<open>notebooks\<close> field only for a true \<open>notebooks\<close> argument.
\<close>

definition upload_filename :: "string \<Rightarrow> string option \<Rightarrow> string" where
  "upload_filename file_path title_arg =
     (case title_arg of
        None \<Rightarrow> path_name file_path
      | Some t \<Rightarrow> if t \<noteq> [] then t else path_name file_path)"

definition upload_request :: "string \<Rightarrow> string \<Rightarrow> json option \<Rightarrow> bool \<Rightarrow> bool \<Rightarrow> request" where
  "upload_request file_path filename notebooks embed_flag async_processing =
     POST_sources_file file_path filename embed_flag async_processing
       (case notebooks of
          None \<Rightarrow> None
        | Some n \<Rightarrow> if truthy n then Some n else None)"

definition upload_file_and_process ::
  "(request \<Rightarrow> reply) \<Rightarrow> (string \<Rightarrow> bool) \<Rightarrow> string \<Rightarrow> string option \<Rightarrow> json option \<Rightarrow> bool \<Rightarrow> bool
     \<Rightarrow> (error + upload_result) \<times> request list" where
  "upload_file_and_process backend readable file_path title_arg notebooks embed_flag async_processing =
     (let filename = upload_filename file_path title_arg
      in (case find_source_for_file backend filename None of
            (Inl e, sent) \<Rightarrow> (Inl e, sent)
          | (Inr (Some existing), sent) \<Rightarrow> (Inr (Success 200 [existing] JNull), sent)
          | (Inr None, sent) \<Rightarrow>
              if \<not> readable file_path then (Inl OSError, sent)
              else
                (let req = upload_request file_path filename notebooks embed_flag async_processing
                 in (case backend req of
                       Fails e \<Rightarrow> (Inl e, sent @ [req])
                     | Reply resp \<Rightarrow>
                         (let wrapped = wrap_response resp
                          in if \<not> w_ok wrapped then (Inr (Failure wrapped), sent @ [req])
                             else (case normalize_sources (w_data wrapped) of
                                     Inl e \<Rightarrow> (Inl e, sent @ [req])
                                   | Inr sources \<Rightarrow>
                                       (Inr (Success (w_status_code wrapped) sources (w_data wrapped)),
                                        sent @ [req])))))))"

section \<open>Status polling (\<open>poll_source_status\<close>)\<close>

text \<open>The dict returned by \<open>poll_source_status\<close>; its \<open>ok\<close> is always true.\<close>

record poll_result =
  pr_status_code :: int
  pr_status :: json
  pr_processing_info :: json
  pr_raw :: json

text \<open>
  What one round of the loop does with the response: a result to return, an exception
  (\<open>data.get\<close> on a body that is not a dict), or nothing, and then the loop goes on to the
  check of the clock.
\<close>

definition poll_response :: "response \<Rightarrow> error + poll_result option" where
  "poll_response resp =
     (let wrapped = wrap_response resp
      in if w_ok wrapped
         then (let data = py_or (w_data wrapped) (JObj [])
               in (case obj_get data ''status'' of
                     Inl e \<Rightarrow> Inl e
                   | Inr status' \<Rightarrow>
                       if status' = JStr ''completed'' \<or> status' = JStr ''failed''
                       then (case obj_get data ''processing_info'' of
                               Inl e \<Rightarrow> Inl e
                             | Inr info \<Rightarrow>
                                 Inr (Some \<lparr> pr_status_code = w_status_code wrapped,
                                              pr_status = status',
                                              pr_processing_info = info,
                                              pr_raw = data \<rparr>))
                       else Inr None))
         else Inr None)"

text \<open>
  The loop runs against a script of the environment: for each round, the reply to the status
  request and the value of \<open>time.time() - start\<close> read after it. The loop has no bound of its
  own, so the result is \<open>None\<close> when the script ends while the loop is still polling. The
  second component counts the requests sent.
\<close>

fun poll_loop ::
  "rat \<Rightarrow> (reply \<times> rat) list \<Rightarrow> nat \<Rightarrow> ((error + poll_result) \<times> nat) option" where
  "poll_loop timeout [] n = None"
| "poll_loop timeout ((rep, elapsed) # rest) n =
     (case rep of
        Fails e \<Rightarrow> Some (Inl e, Suc n)
      | Reply resp \<Rightarrow>
          (case poll_response resp of
             Inl e \<Rightarrow> Some (Inl e, Suc n)
           | Inr (Some r) \<Rightarrow> Some (Inr r, Suc n)
           | Inr None \<Rightarrow>
               if elapsed > timeout then Some (Inl TimeoutError, Suc n)
               else poll_loop timeout rest (Suc n)))"

definition poll_source_status ::
  "rat \<Rightarrow> (reply \<times> rat) list \<Rightarrow> ((error + poll_result) \<times> nat) option" where
  "poll_source_status timeout script = poll_loop timeout script 0"

section \<open>Query client (\<open>query_client.py\<close>)\<close>

text \<open>An optional string argument as the Python value it is.\<close>

fun opt_str :: "string option \<Rightarrow> json" where
  "opt_str None = JNull"
| "opt_str (Some s) = JStr s"

text \<open>
  The fetch of \<open>/models/defaults\<close> inside \<open>try ... except Exception\<close>, as \<open>ask\<close> (with source
  ids) and \<open>notebook_ask\<close> do it: \<open>defaults\<close> stays \<open>{}\<close> when the request raises, the status
  is an error or the body does not decode, and is \<open>dresp.json() or {}\<close> otherwise.
\<close>

definition fetch_defaults :: "(request \<Rightarrow> reply) \<Rightarrow> json" where
  "fetch_defaults backend =
     (case backend GET_models_defaults of
        Fails e \<Rightarrow> JObj []
      | Reply dresp \<Rightarrow>
          if \<not> resp_ok dresp then JObj []
          else (case resp_json dresp of
                  None \<Rightarrow> JObj []
                | Some j \<Rightarrow> py_or j (JObj [])))"

text \<open>
  The calls of \<open>ask\<close> and \<open>notebook_ask\<close> thread two things: the exception that ends the
  call, if any, and the requests sent so far. \<open>and_then m f\<close> runs \<open>f\<close> on the value of \<open>m\<close>
  unless \<open>m\<close> raised.
\<close>

definition and_then ::
  "(error + 'a) \<times> request list \<Rightarrow> ('a \<Rightarrow> request list \<Rightarrow> (error + 'b) \<times> request list)
     \<Rightarrow> (error + 'b) \<times> request list" where
  "and_then m f = (case m of (Inl e, sent) \<Rightarrow> (Inl e, sent) | (Inr x, sent) \<Rightarrow> f x sent)"

text \<open>
  A request followed by \<open>raise_for_status()\<close>, and one followed by \<open>raise_for_status()\<close>
  and \<open>.json()\<close>: the value, or the exception of the first call that raises
  (\<open>status_result\<close>, \<open>json_result\<close>). The request is added to those sent.
\<close>

definition status_result :: "reply \<Rightarrow> error + response" where
  "status_result rep =
     (case rep of
        Fails e \<Rightarrow> Inl e
      | Reply resp \<Rightarrow> if \<not> resp_ok resp then Inl HTTPError else Inr resp)"

definition json_result :: "reply \<Rightarrow> error + json" where
  "json_result rep =
     (case status_result rep of
        Inl e \<Rightarrow> Inl e
      | Inr resp \<Rightarrow> (case resp_json resp of None \<Rightarrow> Inl ValueError | Some j \<Rightarrow> Inr j))"

definition send_status ::
  "(request \<Rightarrow> reply) \<Rightarrow> request \<Rightarrow> request list \<Rightarrow> (error + response) \<times> request list" where
  "send_status backend req sent = (status_result (backend req), sent @ [req])"

definition send_json ::
  "(request \<Rightarrow> reply) \<Rightarrow> request \<Rightarrow> request list \<Rightarrow> (error + json) \<times> request list" where
  "send_json backend req sent = (json_result (backend req), sent @ [req])"

text \<open>\<open>line.startswith(p)\<close>.\<close>

definition startswith :: "string \<Rightarrow> string \<Rightarrow> bool" where
  "startswith line p = (take (length p) line = p)"

text \<open>
  The loop of \<open>ask\<close> over the lines of the streamed response, with \<open>events\<close> and \<open>ai_chunks\<close>
  as its state. \<open>line_body\<close> is the text handed to the decoder: the stripped line, without a
  leading \<open>data:\<close>. \<open>json_loads\<close> is \<open>json.loads\<close>, \<open>None\<close> where it raises. \<open>ev.get\<close> raises
  AttributeError when the decoded line is not a dict.
\<close>

definition line_body :: "string \<Rightarrow> string" where
  "line_body raw' =
     (let line = strip raw'
      in if startswith line ''data:'' then strip (drop 5 line) else line)"

fun stream_loop ::
  "(string \<Rightarrow> json option) \<Rightarrow> string list \<Rightarrow> json list \<times> json list
     \<Rightarrow> error + json list \<times> json list" where
  "stream_loop json_loads [] acc = Inr acc"
| "stream_loop json_loads (raw' # rest) (events, ai_chunks) =
     (if raw' = [] then stream_loop json_loads rest (events, ai_chunks)
      else
        (let body = line_body raw'
         in (case json_loads body of
               None \<Rightarrow>
                 stream_loop json_loads rest
                   (events @ [JObj [(''type'', JStr ''text''), (''text'', JStr body)]], ai_chunks)
             | Some ev \<Rightarrow>
                 (case ev of
                    JObj d \<Rightarrow>
                      (let ev_type = py_or (dict_get d ''type'')
                                       (py_or (dict_get d ''event'') (JStr ''message''))
                       in if ev_type = JStr ''ai_message''
                          then (let content = py_or (dict_get d ''content'')
                                                (py_or (dict_get d ''data'') (JStr []))
                                in stream_loop json_loads rest (events @ [ev], ai_chunks @ [content]))
                          else stream_loop json_loads rest (events @ [ev], ai_chunks))
                  | _ \<Rightarrow> Inl AttributeError))))"

text \<open>\<open>"".join(ai_chunks)\<close>: TypeError when a chunk is not a string.\<close>

fun join_chunks :: "json list \<Rightarrow> error + string" where
  "join_chunks [] = Inr []"
| "join_chunks (JStr s # rest) =
     (case join_chunks rest of Inl e \<Rightarrow> Inl e | Inr t \<Rightarrow> Inr (s @ t))"
| "join_chunks (v # rest) = Inl TypeError"

text \<open>
  The two results of \<open>ask\<close>: with source ids the dict of \<open>search_results\<close> (always empty),
  \<open>total\<close>, \<open>answer\<close> and \<open>events\<close>; without, the decoded body of \<open>/search/ask/simple\<close>.
\<close>

datatype ask_result =
    Streamed nat string "json list"
  | Simple json

text \<open>
  The end of \<open>ask\<close> with source ids, from \<open>events = []\<close> to the \<open>return\<close>: the loop over
  the lines, the join of the chunks, the dict returned.
\<close>

definition read_stream :: "(string \<Rightarrow> json option) \<Rightarrow> string list \<Rightarrow> error + ask_result" where
  "read_stream json_loads lines =
     (case stream_loop json_loads lines ([], []) of
        Inl e \<Rightarrow> Inl e
      | Inr (events, ai_chunks) \<Rightarrow>
          (case join_chunks ai_chunks of
             Inl e \<Rightarrow> Inl e
           | Inr answer_text \<Rightarrow> Inr (Streamed (length ai_chunks) answer_text events)))"

text \<open>
  \<open>a or d.get(k1) or d.get(k2)\<close> for an optional string \<open>a\<close>: \<open>d.get\<close> is reached, and
  raises on a \<open>d\<close> that is not a dict, only when \<open>a\<close> is not true.
\<close>

definition or_get2 :: "json \<Rightarrow> json \<Rightarrow> string \<Rightarrow> string \<Rightarrow> error + json" where
  "or_get2 a d k1 k2 =
     (if truthy a then Inr a
      else (case obj_get d k1 of
              Inl e \<Rightarrow> Inl e
            | Inr v1 \<Rightarrow> if truthy v1 then Inr v1 else obj_get d k2))"

text \<open>
  \<open>ask(prompt, source_ids, model_override)\<close>; \<open>now\<close> is \<open>int(time())\<close> at the creation of the
  session. With source ids: the defaults, the model, the session for the first id, the
  streamed message, the loop over its lines, the join. Without: the defaults (here
  \<open>defaults = dresp.json()\<close>, with no \<open>or {}\<close>), the three models, the single request.
\<close>

definition ask ::
  "(string \<Rightarrow> json option) \<Rightarrow> (request \<Rightarrow> reply) \<Rightarrow> int \<Rightarrow> string \<Rightarrow> string list \<Rightarrow> string option
     \<Rightarrow> (error + ask_result) \<times> request list" where
  "ask json_loads backend now prompt source_ids model_override =
     (case source_ids of
        source_id # others \<Rightarrow>
          (let defaults = fetch_defaults backend
           in and_then (or_get2 (opt_str model_override) defaults
                          ''default_transformation_model'' ''default_chat_model'',
                        [GET_models_defaults])
             (\<lambda>strategy_model sent1.
              and_then (send_json backend (POST_source_chat_sessions source_id now strategy_model) sent1)
             (\<lambda>session sent2.
              and_then (obj_get session ''id'', sent2)
             (\<lambda>session_id sent2.
              and_then (send_status backend
                          (POST_source_chat_messages source_id session_id prompt
                             (if truthy strategy_model then strategy_model else JNull)) sent2)
             (\<lambda>r sent3. (read_stream json_loads (resp_lines r), sent3))))))
      | [] \<Rightarrow>
          (let defaults = (case fst (send_json backend GET_models_defaults []) of
                             Inl e \<Rightarrow> JObj []
                           | Inr j \<Rightarrow> j)
           in and_then (or_get2 JNull defaults ''default_transformation_model'' ''default_chat_model'',
                        [GET_models_defaults])
             (\<lambda>strategy sent1.
              and_then (obj_get defaults ''default_chat_model'', sent1)
             (\<lambda>answer sent1.
              and_then (send_json backend
                          (if truthy (opt_str model_override)
                           then POST_search_ask_simple prompt (opt_str model_override)
                                  (opt_str model_override) (opt_str model_override)
                           else POST_search_ask_simple prompt strategy answer answer) sent1)
             (\<lambda>j sent2. (Inr (Simple j), sent2))))))"

text \<open>The dict returned by \<open>notebook_ask\<close>.\<close>

record notebook_answer =
  na_notebook_id :: json
  na_session_id :: json
  na_messages :: json
  na_ai_answer :: json

text \<open>
  The extraction of the answer at the end of \<open>notebook_ask\<close>: \<open>msgs[-1]\<close> of a true
  \<open>msgs\<close>, and its \<open>content\<close> when its \<open>type\<close> is \<open>"ai"\<close>. \<open>msgs[-1]\<close> is the last element
  of a list and the last character of a string; on a dict it raises KeyError and on a number
  or \<open>True\<close> TypeError.
\<close>

definition extract_ai_answer :: "json \<Rightarrow> error + json" where
  "extract_ai_answer msgs =
     (if \<not> truthy msgs then Inr (JStr [])
      else (case msgs of
              JList ms \<Rightarrow>
                (case last ms of
                   JObj last_msg \<Rightarrow>
                     if dict_get last_msg ''type'' = JStr ''ai''
                     then Inr (dict_get_default last_msg ''content'' (JStr []))
                     else Inr (JStr [])
                 | _ \<Rightarrow> Inl AttributeError)
            | JStr s \<Rightarrow> Inl AttributeError
            | JObj d \<Rightarrow> Inl KeyError
            | _ \<Rightarrow> Inl TypeError))"

text \<open>
  \<open>notebook_ask(source_id, message, model_override, notebook_id, session_id)\<close>, step by
  step; \<open>t_nb\<close> and \<open>t_sess\<close> are \<open>int(time())\<close> at the two places that read the clock. Every
  request but the first is followed by \<open>raise_for_status()\<close>, so the first failure ends the
  call. \<open>notebook_context\<close> is the first part (steps 1 to 4: the defaults, the notebook, the
  link, the context) and yields the notebook id and the context built; \<open>notebook_execute\<close>
  is the last part (step 6 and the extraction of the answer); \<open>notebook_ask\<close> runs the
  first part, step 5 (the session) and the last part.
\<close>

definition notebook_context ::
  "(request \<Rightarrow> reply) \<Rightarrow> int \<Rightarrow> string \<Rightarrow> string option \<Rightarrow> (error + json \<times> json) \<times> request list" where
  "notebook_context backend t_nb source_id notebook_id =
     and_then (if \<not> truthy (opt_str notebook_id)
               then and_then (send_json backend (POST_notebooks t_nb) [GET_models_defaults])
                      (\<lambda>nb sent. (obj_get nb ''id'', sent))
               else (Inr (opt_str notebook_id), [GET_models_defaults]))
    (\<lambda>notebook_id' sent2.
     and_then (send_status backend (POST_notebook_source notebook_id' source_id) sent2)
    (\<lambda>lresp sent3.
     and_then (send_json backend (POST_chat_context notebook_id' source_id) sent3)
    (\<lambda>context_data sent4.
     and_then (obj_get context_data ''context'', sent4)
    (\<lambda>built_context sent4. (Inr (notebook_id', built_context), sent4)))))"

definition notebook_execute ::
  "(request \<Rightarrow> reply) \<Rightarrow> json \<Rightarrow> string \<Rightarrow> string option \<Rightarrow> json \<Rightarrow> json \<Rightarrow> json \<Rightarrow> request list
     \<Rightarrow> (error + notebook_answer) \<times> request list" where
  "notebook_execute backend defaults message model_override notebook_id' built_context session_id' sent5 =
     and_then (if truthy (opt_str model_override) then Inr (opt_str model_override)
               else obj_get defaults ''default_chat_model'', sent5)
    (\<lambda>model sent5.
     and_then (send_json backend (POST_chat_execute session_id' message built_context model) sent5)
    (\<lambda>resp_data sent6.
     and_then (case resp_data of
                 JObj rd \<Rightarrow> Inr (dict_get_default rd ''messages'' (JList []))
               | _ \<Rightarrow> Inl AttributeError, sent6)
    (\<lambda>msgs sent6.
     and_then (extract_ai_answer msgs, sent6)
    (\<lambda>ai_answer sent6.
     (Inr \<lparr> na_notebook_id = notebook_id',
             na_session_id = session_id',
             na_messages = msgs,
             na_ai_answer = ai_answer \<rparr>, sent6)))))"

definition notebook_ask ::
  "(request \<Rightarrow> reply) \<Rightarrow> int \<Rightarrow> int \<Rightarrow> string \<Rightarrow> string \<Rightarrow> string option \<Rightarrow> string option
     \<Rightarrow> string option \<Rightarrow> (error + notebook_answer) \<times> request list" where
  "notebook_ask backend t_nb t_sess source_id message model_override notebook_id session_id =
     (let defaults = fetch_defaults backend
      in and_then (notebook_context backend t_nb source_id notebook_id)
        (\<lambda>(notebook_id', built_context) sent4.
         and_then (if \<not> truthy (opt_str session_id)
                   then and_then (send_json backend (POST_chat_sessions notebook_id' t_sess) sent4)
                          (\<lambda>sess sent. (obj_get sess ''id'', sent))
                   else (Inr (opt_str session_id), sent4))
        (\<lambda>session_id' sent5.
         notebook_execute backend defaults message model_override notebook_id' built_context
           session_id' sent5)))"

section \<open>Notions used to state the properties\<close>

text \<open>
  A name part that ends in a bracketed integer, possibly followed by white space: the
  strings the regular expression of \<open>normalize_filename\<close> matches.
\<close>

definition ends_with_paren_int :: "string \<Rightarrow> bool" where
  "ends_with_paren_int s =
     (\<exists>u ds ws. s = u @ ''('' @ ds @ '')'' @ ws \<and> ds \<noteq> [] \<and>
        (\<forall>c \<in> set ds. isdigit c) \<and> (\<forall>c \<in> set ws. isspace c))"

text \<open>
  The typing of a document record: title, stored path and the two timestamps are strings
  or absent (any false value counts as absent, as it does for the code).
\<close>

definition str_or_falsy :: "json \<Rightarrow> bool" where
  "str_or_falsy v = (is_str v \<or> \<not> truthy v)"

definition document_record :: "source \<Rightarrow> bool" where
  "document_record s =
     (str_or_falsy (title s) \<and> str_or_falsy (asset_file_path s) \<and>
      str_or_falsy (updated s) \<and> str_or_falsy (created s))"

text \<open>
  The key of the tie-break in the words of the specification: the \<open>updated\<close> timestamp,
  else the \<open>created\<close> timestamp, else the empty string.
\<close>

definition timestamp_key :: "source \<Rightarrow> string" where
  "timestamp_key s =
     (if str_val (updated s) \<noteq> [] then str_val (updated s) else str_val (created s))"

text \<open>
  The three kinds of match, each stated on the fields of the record: the stored path equals
  the target; the last component of the stored path, or the title, equals the last component
  of the target without regard to case; the normalized title equals the normalized target.
  An empty path or title matches nothing.
\<close>

definition is_exact :: "string \<Rightarrow> source \<Rightarrow> bool" where
  "is_exact target s = (target \<noteq> [] \<and> asset_file_path s = JStr target)"

definition is_basename :: "string \<Rightarrow> source \<Rightarrow> bool" where
  "is_basename target s =
     ((case asset_file_path s of
         JStr fp \<Rightarrow> fp \<noteq> [] \<and> lower (path_name fp) = lower (path_name target)
       | _ \<Rightarrow> False) \<or>
      (case title s of
         JStr t \<Rightarrow> t \<noteq> [] \<and> lower t = lower (path_name target)
       | _ \<Rightarrow> False))"

definition is_normalized :: "string \<Rightarrow> source \<Rightarrow> bool" where
  "is_normalized target s =
     (case title s of
        JStr t \<Rightarrow> t \<noteq> [] \<and> normalize_filename t = normalize_filename target
      | _ \<Rightarrow> False)"

text \<open>
  The best tier a record matches in, the records of the best tier that is not empty (in the
  order of the listing), and the priority of a tier (smaller is better).
\<close>

definition tier_of :: "string \<Rightarrow> source \<Rightarrow> tier" where
  "tier_of target s =
     (if is_exact target s then Exact
      else if is_basename target s then Basename
      else if is_normalized target s then Normalized
      else Unmatched)"

definition best_matches :: "string \<Rightarrow> source list \<Rightarrow> source list" where
  "best_matches target cs =
     first_nonempty (filter (\<lambda>s. tier_of target s = Exact) cs)
       (filter (\<lambda>s. tier_of target s = Basename) cs)
       (filter (\<lambda>s. tier_of target s = Normalized) cs)"

fun tier_rank :: "tier \<Rightarrow> nat" where
  "tier_rank Exact = 0"
| "tier_rank Basename = 1"
| "tier_rank Normalized = 2"
| "tier_rank Unmatched = 3"

text \<open>The creation request of the uploader: \<open>POST /sources\<close>.\<close>

fun is_creation :: "request \<Rightarrow> bool" where
  "is_creation (POST_sources_file p t e a n) = True"
| "is_creation _ = False"

text \<open>The listing request fails: whatever its parameters, the response is not \<open>ok\<close>.\<close>

definition listing_fails :: "(request \<Rightarrow> reply) \<Rightarrow> bool" where
  "listing_fails backend = (\<forall>p. \<exists>resp. backend (GET_sources p) = Reply resp \<and> \<not> resp_ok resp)"

text \<open>
  What a status response reports: the \<open>status\<close> field of its body when the body is a
  dict, nothing otherwise. The two terminal statuses. A reply reports a terminal status when
  it is an \<open>ok\<close> response that does; it is transient when it is a response that is not
  \<open>ok\<close>, or an \<open>ok\<close> response with an empty body or a dict for a body and no terminal
  status in it (no status at all, or \<open>pending\<close>, \<open>running\<close> and so on).
\<close>

definition reported_status :: "response \<Rightarrow> json" where
  "reported_status resp =
     (case w_data (wrap_response resp) of JObj d \<Rightarrow> dict_get d ''status'' | _ \<Rightarrow> JNull)"

definition terminal_status :: "json \<Rightarrow> bool" where
  "terminal_status st = (st = JStr ''completed'' \<or> st = JStr ''failed'')"

fun is_obj :: "json \<Rightarrow> bool" where
  "is_obj (JObj d) = True"
| "is_obj _ = False"

fun reports_terminal :: "reply \<Rightarrow> bool" where
  "reports_terminal (Reply resp) = (resp_ok resp \<and> terminal_status (reported_status resp))"
| "reports_terminal (Fails e) = False"

fun transient :: "reply \<Rightarrow> bool" where
  "transient (Reply resp) =
     (\<not> resp_ok resp \<or>
      ((\<not> truthy (w_data (wrap_response resp)) \<or> is_obj (w_data (wrap_response resp))) \<and>
       \<not> terminal_status (reported_status resp)))"
| "transient (Fails e) = False"

text \<open>
  The stream of \<open>ask\<close> in the words of the specification. Every line that is not empty
  gives one event: the decoded line, or a text event for a line that does not decode. The
  tag of an event is its \<open>type\<close>, else its \<open>event\<close>, else \<open>message\<close>; the content of an
  event is its \<open>content\<close>, else its \<open>data\<close>, else the empty string. The answer is the
  concatenation of the contents of the events tagged \<open>ai_message\<close>, in the order of
  arrival, and \<open>total\<close> is their number.
\<close>

definition event_of :: "(string \<Rightarrow> json option) \<Rightarrow> string \<Rightarrow> json" where
  "event_of json_loads raw' =
     (case json_loads (line_body raw') of
        None \<Rightarrow> JObj [(''type'', JStr ''text''), (''text'', JStr (line_body raw'))]
      | Some ev \<Rightarrow> ev)"

fun event_tag :: "json \<Rightarrow> json" where
  "event_tag (JObj d) = py_or (dict_get d ''type'') (py_or (dict_get d ''event'') (JStr ''message''))"
| "event_tag _ = JNull"

definition is_ai_message :: "json \<Rightarrow> bool" where
  "is_ai_message ev = (event_tag ev = JStr ''ai_message'')"

fun ai_content :: "json \<Rightarrow> json" where
  "ai_content (JObj d) = py_or (dict_get d ''content'') (py_or (dict_get d ''data'') (JStr []))"
| "ai_content _ = JNull"

definition stream_events :: "(string \<Rightarrow> json option) \<Rightarrow> string list \<Rightarrow> json list" where
  "stream_events json_loads lines = map (event_of json_loads) (filter (\<lambda>l. l \<noteq> []) lines)"

definition stream_answer :: "(string \<Rightarrow> json option) \<Rightarrow> string list \<Rightarrow> ask_result" where
  "stream_answer json_loads lines =
     Streamed (length (filter is_ai_message (stream_events json_loads lines)))
       (concat (map (\<lambda>ev. str_val (ai_content ev))
                  (filter is_ai_message (stream_events json_loads lines))))
       (stream_events json_loads lines)"

text \<open>
  A stream as the interface describes it: every line that decodes is a dict, and the
  content of an event tagged \<open>ai_message\<close> is a string.
\<close>

definition well_formed_stream :: "(string \<Rightarrow> json option) \<Rightarrow> string list \<Rightarrow> bool" where
  "well_formed_stream json_loads lines =
     (\<forall>ev \<in> set (stream_events json_loads lines).
        is_obj ev \<and> (is_ai_message ev \<longrightarrow> is_str (ai_content ev)))"

text \<open>The request that posts the prompt to the session and opens the stream.\<close>

fun is_message_request :: "request \<Rightarrow> bool" where
  "is_message_request (POST_source_chat_messages sid sess prompt model) = True"
| "is_message_request _ = False"

text \<open>
  The two creation requests of \<open>notebook_ask\<close>, and an optional argument that is omitted:
  \<open>None\<close> (or the empty string, which the code does not tell from \<open>None\<close>).
\<close>

fun is_notebook_creation :: "request \<Rightarrow> bool" where
  "is_notebook_creation (POST_notebooks t) = True"
| "is_notebook_creation _ = False"

fun is_session_creation :: "request \<Rightarrow> bool" where
  "is_session_creation (POST_chat_sessions nb t) = True"
| "is_session_creation _ = False"

definition omitted :: "string option \<Rightarrow> bool" where
  "omitted x = (x = None \<or> x = Some [])"

section \<open>Example data\<close>

text \<open>
  A listing of two records for the target \<open>a.pdf\<close>: the first matches by its normalized
  title only and is the newer one, the second matches by the last component of its stored
  path. And a backend that answers every request with this listing.
\<close>

definition example_listing :: json where
  "example_listing =
     JList [JObj [(''id'', JStr ''source:2''), (''title'', JStr ''a (2).pdf''),
                  (''updated'', JStr ''2024-02-01'')],
            JObj [(''id'', JStr ''source:1''), (''asset'', JObj [(''file_path'', JStr ''/x/a.pdf'')]),
                  (''updated'', JStr ''2024-01-01'')]]"

definition ok_response :: "json \<Rightarrow> response" where
  "ok_response j =
     \<lparr> resp_ok = True, resp_status_code = 200, resp_text = ''(body)'', resp_json = Some j,
       resp_lines = [] \<rparr>"

definition example_backend :: "request \<Rightarrow> reply" where
  "example_backend req = Reply (ok_response example_listing)"

text \<open>
  A listing of three records that all match \<open>a.pdf\<close> by their normalized titles: one
  updated in February, one never updated but created in March, one without timestamps.
\<close>

definition example_versions :: json where
  "example_versions =
     JList [JObj [(''id'', JStr ''source:7''), (''title'', JStr ''a (2).pdf''),
                  (''updated'', JStr ''2024-02-01''), (''created'', JStr ''2024-01-15'')],
            JObj [(''id'', JStr ''source:8''), (''title'', JStr ''A (3).PDF''),
                  (''created'', JStr ''2024-03-01'')],
            JObj [(''id'', JStr ''source:9''), (''title'', JStr ''a (4).pdf'')]]"

definition versions_backend :: "request \<Rightarrow> reply" where
  "versions_backend req = Reply (ok_response example_versions)"

text \<open>
  A backend whose listing fails with status 503, although the body of the response names
  a record that matches \<open>a.pdf\<close>, and that accepts an upload.
\<close>

definition failing_listing_backend :: "request \<Rightarrow> reply" where
  "failing_listing_backend req =
     (case req of
        GET_sources p \<Rightarrow>
          Reply \<lparr> resp_ok = False, resp_status_code = 503, resp_text = ''(body)'',
                  resp_json = Some example_listing, resp_lines = [] \<rparr>
      | _ \<Rightarrow> Reply (ok_response (JObj [(''id'', JStr ''source:3''), (''title'', JStr ''a (3).pdf'')])))"

text \<open>
  Three rounds of polling: the job is running after 2 seconds, the status endpoint answers
  500 after 4 seconds, the job is completed after 6 seconds.
\<close>

definition example_script :: "(reply \<times> rat) list" where
  "example_script =
     [(Reply (ok_response (JObj [(''status'', JStr ''running'')])), 2),
      (Reply \<lparr> resp_ok = False, resp_status_code = 500, resp_text = ''(error)'',
                resp_json = None, resp_lines = [] \<rparr>, 4),
      (Reply (ok_response (JObj [(''status'', JStr ''completed''), (''processing_info'', JNull)])), 6)]"

text \<open>
  A decoder that knows four lines, in place of \<open>json.loads\<close>: two events tagged
  \<open>ai_message\<close> (one by \<open>type\<close> with \<open>content\<close>, one by \<open>event\<close> with \<open>data\<close>), an event
  of another type, and a number; every other line does not decode. A stream of five lines
  with one empty line and one line of plain text. And a backend that answers the message
  request with this stream and every other request with a dict holding an id.
\<close>

definition example_loads :: "string \<Rightarrow> json option" where
  "example_loads s =
     (if s = ''{ai1}'' then Some (JObj [(''type'', JStr ''ai_message''), (''content'', JStr ''partial-'')])
      else if s = ''{ai2}'' then Some (JObj [(''event'', JStr ''ai_message''), (''data'', JStr ''answer'')])
      else if s = ''{tool}'' then Some (JObj [(''type'', JStr ''tool_call'')])
      else if s = ''42'' then Some (JNum 42)
      else None)"

definition example_stream :: "string list" where
  "example_stream = [''data: {ai1}'', [], ''thinking...'', ''data:{tool}'', '' {ai2} '']"

definition stream_backend :: "request \<Rightarrow> reply" where
  "stream_backend req =
     (case req of
        POST_source_chat_messages sid sess prompt model \<Rightarrow>
          Reply \<lparr> resp_ok = True, resp_status_code = 200, resp_text = ''(stream)'',
                  resp_json = None, resp_lines = example_stream \<rparr>
      | _ \<Rightarrow> Reply (ok_response (JObj [(''id'', JStr ''session:1'')])))"

text \<open>
  A backend for \<open>notebook_ask\<close> on which every step succeeds, and one that answers the
  link request with status 404 (the source is unknown).
\<close>

definition notebook_backend :: "request \<Rightarrow> reply" where
  "notebook_backend req =
     (case req of
        POST_notebook_source nb src \<Rightarrow> Reply (ok_response JNull)
      | POST_chat_context nb src \<Rightarrow> Reply (ok_response (JObj [(''context'', JStr ''(context)'')]))
      | POST_chat_execute sess msg ctx model \<Rightarrow>
          Reply (ok_response (JObj [(''messages'',
                   JList [JObj [(''type'', JStr ''ai''), (''content'', JStr ''yes'')]])]))
      | _ \<Rightarrow> Reply (ok_response (JObj [(''id'', JStr ''new:1'')])))"

definition unknown_source_backend :: "request \<Rightarrow> reply" where
  "unknown_source_backend req =
     (case req of
        POST_notebook_source nb src \<Rightarrow>
          Reply \<lparr> resp_ok = False, resp_status_code = 404, resp_text = ''(not found)'',
                  resp_json = None, resp_lines = [] \<rparr>
      | _ \<Rightarrow> notebook_backend req)"

section \<open>Properties of the filename normalization\<close>

lemma takeWhile_all: "\<forall>x \<in> set xs. P x \<Longrightarrow> \<not> P y \<Longrightarrow> takeWhile P (xs @ y # ys) = xs"
  by (induction xs) auto

lemma dropWhile_all: "\<forall>x \<in> set xs. P x \<Longrightarrow> \<not> P y \<Longrightarrow> dropWhile P (xs @ y # ys) = y # ys"
  by (induction xs) auto

lemma dropWhile_pref: "\<forall>x \<in> set xs. P x \<Longrightarrow> dropWhile P (xs @ ys) = dropWhile P ys"
  by (induction xs) auto

lemma dropWhile_Nil_all: "\<forall>x \<in> set xs. P x \<Longrightarrow> dropWhile P xs = []"
  by (induction xs) auto

lemma split_on_nonempty: "split_on c xs \<noteq> []"
  by (induction xs) (auto split: list.splits)

lemma split_on_append: "split_on c (xs @ c # ys) = split_on c xs @ split_on c ys"
proof (induction xs)
  case Nil
  show ?case by simp
next
  case (Cons x xs)
  show ?case
  proof (cases "x = c")
    case True
    with Cons show ?thesis by simp
  next
    case False
    obtain w ws where w: "split_on c xs = w # ws"
      using split_on_nonempty [of c xs] by (cases "split_on c xs") auto
    with False Cons show ?thesis by simp
  qed
qed

lemma split_on_notin: "c \<notin> set b \<Longrightarrow> split_on c b = [b]"
  by (induction b) auto

lemma path_name_plain:
  assumes "CHR ''/'' \<notin> set b" "b \<noteq> []" "b \<noteq> ''.''"
  shows "path_name b = b"
  using assms by (simp add: path_name_def split_on_notin)

lemma path_name_prefix:
  assumes "p = [] \<or> last p = CHR ''/''" "CHR ''/'' \<notin> set b" "b \<noteq> []" "b \<noteq> ''.''"
  shows "path_name (p @ b) = b"
proof (cases "p = []")
  case True
  with assms show ?thesis by (simp add: path_name_plain)
next
  case False
  with assms(1) obtain q where p: "p = q @ [CHR ''/'']"
    by (metis append_butlast_last_id)
  have "split_on CHR ''/'' (p @ b) = split_on CHR ''/'' q @ [b]"
    using assms(2) by (simp add: p split_on_append split_on_notin)
  then have "filter (\<lambda>c. c \<noteq> [] \<and> c \<noteq> ''.'') (split_on CHR ''/'' (p @ b))
               = filter (\<lambda>c. c \<noteq> [] \<and> c \<noteq> ''.'') (split_on CHR ''/'' q) @ [b]"
    using assms(3,4) by simp
  moreover have "(case xs @ [b] of [] \<Rightarrow> [] | c # cs \<Rightarrow> last (c # cs)) = b" for xs :: "string list"
    by (cases xs) simp_all
  ultimately show ?thesis
    by (simp add: path_name_def)
qed

lemma rsplit_dot_last:
  assumes "CHR ''.'' \<notin> set e"
  shows "rsplit_dot (n @ CHR ''.'' # e) = (n, e)"
proof -
  have e: "\<forall>c \<in> set (rev e). c \<noteq> CHR ''.''"
    using assms by auto
  have a: "takeWhile (\<lambda>c. c \<noteq> CHR ''.'') (rev e @ CHR ''.'' # rev n) = rev e"
    using e by (rule takeWhile_all) simp
  have b: "dropWhile (\<lambda>c. c \<noteq> CHR ''.'') (rev e @ CHR ''.'' # rev n) = CHR ''.'' # rev n"
    using e by (rule dropWhile_all) simp
  show ?thesis by (simp add: rsplit_dot_def a b)
qed

lemma paren_not_space: "\<not> isspace CHR '')''" "\<not> isspace CHR ''(''" "\<not> isdigit CHR ''(''"
  by (simp_all add: isspace_def isdigit_def)

lemma re_sub_suffix_match:
  assumes "ds \<noteq> []" "\<forall>c \<in> set ds. isdigit c" "\<forall>c \<in> set ws1. isspace c" "\<forall>c \<in> set ws2. isspace c"
  shows "re_sub_suffix (s @ ws1 @ ''('' @ ds @ '')'' @ ws2) = rev (dropWhile isspace (rev s))"
proof -
  have r: "rev (s @ ws1 @ ''('' @ ds @ '')'' @ ws2)
             = rev ws2 @ CHR '')'' # (rev ds @ CHR ''('' # (rev ws1 @ rev s))"
    by simp
  have a: "dropWhile isspace (rev ws2 @ CHR '')'' # (rev ds @ CHR ''('' # (rev ws1 @ rev s)))
             = CHR '')'' # (rev ds @ CHR ''('' # (rev ws1 @ rev s))"
    using assms(4) by (intro dropWhile_all) (simp_all add: paren_not_space)
  have b: "takeWhile isdigit (rev ds @ CHR ''('' # (rev ws1 @ rev s)) = rev ds"
    using assms(2) by (intro takeWhile_all) (simp_all add: paren_not_space)
  have c: "dropWhile isdigit (rev ds @ CHR ''('' # (rev ws1 @ rev s)) = CHR ''('' # (rev ws1 @ rev s)"
    using assms(2) by (intro dropWhile_all) (simp_all add: paren_not_space)
  have d: "dropWhile isspace (rev ws1 @ rev s) = dropWhile isspace (rev s)"
    using assms(3) by (intro dropWhile_pref) simp
  show ?thesis
    unfolding re_sub_suffix_def r a using assms(1) by (simp add: b c d)
qed

lemma re_sub_suffix_no_match:
  assumes "\<not> ends_with_paren_int s"
  shows "re_sub_suffix s = s"
proof (rule ccontr)
  assume neq: "re_sub_suffix s \<noteq> s"
  define r where "r = rev s"
  from neq obtain r2 where 1: "dropWhile isspace r = CHR '')'' # r2" and 2: "takeWhile isdigit r2 \<noteq> []"
    unfolding re_sub_suffix_def r_def by (auto split: list.splits if_splits)
  from neq 1 2 obtain r4 where 3: "dropWhile isdigit r2 = CHR ''('' # r4"
    unfolding re_sub_suffix_def r_def by (auto split: list.splits if_splits)
  have "r = takeWhile isspace r @ CHR '')'' # takeWhile isdigit r2 @ CHR ''('' # r4"
    using 1 3 by (metis takeWhile_dropWhile_id)
  then have "s = rev r4 @ ''('' @ rev (takeWhile isdigit r2) @ '')'' @ rev (takeWhile isspace r)"
    unfolding r_def by (metis rev_rev_ident rev_append rev.simps append_Cons append_Nil append_assoc)
  moreover have "\<forall>c \<in> set (rev (takeWhile isdigit r2)). isdigit c"
    by (auto dest: set_takeWhileD)
  moreover have "\<forall>c \<in> set (rev (takeWhile isspace r)). isspace c"
    by (auto dest: set_takeWhileD)
  ultimately have "ends_with_paren_int s"
    unfolding ends_with_paren_int_def using 2 by (metis rev_is_Nil_conv)
  with assms show False by simp
qed

lemma dropWhile_snoc_keeps: "\<not> P b \<Longrightarrow> \<exists>t. dropWhile P (ys @ [b]) = t @ [b]"
  by (induction ys) auto

lemma dropWhile_rev_dropWhile:
  "dropWhile P (rev (dropWhile P (rev xs))) = rev (dropWhile P (rev (dropWhile P xs)))"
proof (cases "\<forall>x \<in> set xs. P x")
  case True
  then have e: "dropWhile P xs = []" "dropWhile P (rev xs) = []"
    by (simp_all add: dropWhile_Nil_all)
  show ?thesis unfolding e by simp
next
  case False
  then obtain a b c where xs: "xs = a @ b # c" and a: "\<forall>x \<in> set a. P x" and b: "\<not> P b"
    using split_list_first_prop [of xs "\<lambda>x. \<not> P x"] by auto
  have l: "dropWhile P xs = b # c"
    unfolding xs using a b by (rule dropWhile_all)
  obtain t where t: "dropWhile P (rev c @ [b]) = t @ [b]"
    using dropWhile_snoc_keeps [of P b "rev c"] b by blast
  have "dropWhile P ((rev c @ [b]) @ rev a) = dropWhile P (rev c @ [b]) @ rev a"
    using b by (intro dropWhile_append1 [of b]) simp_all
  then have "dropWhile P (rev xs) = t @ [b] @ rev a"
    by (simp add: xs t)
  then have "rev (dropWhile P (rev xs)) = a @ b # rev t"
    by simp
  then have "dropWhile P (rev (dropWhile P (rev xs))) = b # rev t"
    using a b by (simp add: dropWhile_all)
  moreover have "rev (dropWhile P (rev (dropWhile P xs))) = b # rev t"
    by (simp add: l t)
  ultimately show ?thesis by simp
qed

lemma strip_rstrip: "strip (rev (dropWhile isspace (rev s))) = strip s"
  by (simp add: strip_def dropWhile_rev_dropWhile dropWhile_idem)

lemma isspace_lower_char: "isspace (lower_char c) = isspace c"
  by (cases c) (auto simp: lower_char_def isupper_def isspace_def)

lemma lower_strip: "lower (strip s) = strip (lower s)"
  by (simp add: lower_def strip_def rev_map dropWhile_map comp_def isspace_lower_char)

lemma lower_append: "lower (a @ b) = lower a @ lower b"
  by (simp add: lower_def)

lemma lower_char_eq_slash: "lower_char c = CHR ''/'' \<longleftrightarrow> c = CHR ''/''"
  by (cases c) (auto simp: lower_char_def isupper_def)

lemma lower_char_eq_dot: "lower_char c = CHR ''.'' \<longleftrightarrow> c = CHR ''.''"
  by (cases c) (auto simp: lower_char_def isupper_def)

lemma slash_in_lower: "CHR ''/'' \<in> set (lower s) \<longleftrightarrow> CHR ''/'' \<in> set s"
proof
  assume "CHR ''/'' \<in> set (lower s)"
  then obtain x where "x \<in> set s" "lower_char x = CHR ''/''" by (auto simp: lower_def)
  then show "CHR ''/'' \<in> set s" by (simp add: lower_char_eq_slash)
next
  assume "CHR ''/'' \<in> set s"
  moreover have "lower_char CHR ''/'' = CHR ''/''" by (simp add: lower_char_eq_slash)
  ultimately show "CHR ''/'' \<in> set (lower s)" unfolding lower_def set_map by (metis imageI)
qed

lemma dot_in_lower: "CHR ''.'' \<in> set (lower s) \<longleftrightarrow> CHR ''.'' \<in> set s"
proof
  assume "CHR ''.'' \<in> set (lower s)"
  then obtain x where "x \<in> set s" "lower_char x = CHR ''.''" by (auto simp: lower_def)
  then show "CHR ''.'' \<in> set s" by (simp add: lower_char_eq_dot)
next
  assume "CHR ''.'' \<in> set s"
  moreover have "lower_char CHR ''.'' = CHR ''.''" by (simp add: lower_char_eq_dot)
  ultimately show "CHR ''.'' \<in> set (lower s)" unfolding lower_def set_map by (metis imageI)
qed


lemma lower_Cons_dot: "lower (CHR ''.'' # e) = CHR ''.'' # lower e"
  by (simp add: lower_def lower_char_def isupper_def)

lemma normalize_filename_split:
  assumes "CHR ''/'' \<notin> set n" "CHR ''/'' \<notin> set e" "CHR ''.'' \<notin> set e"
    and "p = [] \<or> last p = CHR ''/''" "n \<noteq> [] \<or> e \<noteq> []"
  shows "normalize_filename (p @ n @ ''.'' @ e) = lower (strip (re_sub_suffix n)) @ ''.'' @ lower e"
proof -
  have "n @ ''.'' @ e \<noteq> ''.''"
    using assms(5) by (cases n) auto
  then have "path_name (p @ (n @ ''.'' @ e)) = n @ ''.'' @ e"
    using assms(1,2,4) by (intro path_name_prefix) simp_all
  then show ?thesis
    using assms(3) by (simp add: normalize_filename_def rsplit_dot_last lower_append lower_Cons_dot)
qed

lemma ends_with_paren_int_no_bracket: "CHR '')'' \<notin> set s \<Longrightarrow> \<not> ends_with_paren_int s"
  by (auto simp: ends_with_paren_int_def)

text \<open>
  C2, as the code has it. Take a plain name \<open>s2.e2\<close> under any directory prefix, whose
  stem \<open>s2\<close> does not itself end in a bracketed integer and which is not the bare dot, and
  a second name that differs from it by a bracketed integer (with any white space around it)
  right before the extension, by letter case, and by its directory prefix. Both
  normalize to the same string.
\<close>

theorem normalize_filename_suffix:
  assumes "p1 = [] \<or> last p1 = CHR ''/''" and "p2 = [] \<or> last p2 = CHR ''/''"
    and "CHR ''/'' \<notin> set s2" and "CHR ''/'' \<notin> set e2" and "CHR ''.'' \<notin> set e2"
    and "lower s1 = lower s2" and "lower e1 = lower e2"
    and "ds \<noteq> []" and "\<forall>c \<in> set ds. isdigit c"
    and "\<forall>c \<in> set ws1. isspace c" and "\<forall>c \<in> set ws2. isspace c"
    and "\<not> ends_with_paren_int s2" and "s2 \<noteq> [] \<or> e2 \<noteq> []"
  shows "normalize_filename (p1 @ s1 @ ws1 @ ''('' @ ds @ '')'' @ ws2 @ ''.'' @ e1)
           = normalize_filename (p2 @ s2 @ ''.'' @ e2)"
proof -
  let ?n = "s1 @ ws1 @ ''('' @ ds @ '')'' @ ws2"
  have s1: "CHR ''/'' \<notin> set s1"
    using assms(3,6) slash_in_lower by metis
  have e1: "CHR ''/'' \<notin> set e1" "CHR ''.'' \<notin> set e1"
    using assms(4,5,7) slash_in_lower dot_in_lower by metis+
  have sp: "CHR ''/'' \<notin> set ws1" "CHR ''/'' \<notin> set ws2"
    using assms(10,11) by (auto simp: isspace_def)
  have dg: "CHR ''/'' \<notin> set ds"
    using assms(9) by (auto simp: isdigit_def)
  have n: "CHR ''/'' \<notin> set ?n"
    using s1 sp dg by simp
  have "normalize_filename (p1 @ ?n @ ''.'' @ e1) = lower (strip (re_sub_suffix ?n)) @ ''.'' @ lower e1"
    using n e1 assms(1) by (intro normalize_filename_split) simp_all
  also have "re_sub_suffix ?n = rev (dropWhile isspace (rev s1))"
    using assms(8-11) by (rule re_sub_suffix_match)
  also have "lower (strip (rev (dropWhile isspace (rev s1)))) = strip (lower s1)"
    by (simp add: strip_rstrip lower_strip)
  finally have left: "normalize_filename (p1 @ ?n @ ''.'' @ e1) = strip (lower s2) @ ''.'' @ lower e2"
    by (simp add: assms(6,7))
  have "normalize_filename (p2 @ s2 @ ''.'' @ e2) = lower (strip (re_sub_suffix s2)) @ ''.'' @ lower e2"
    using assms(2,3,4,5,13) by (intro normalize_filename_split) simp_all
  then have right: "normalize_filename (p2 @ s2 @ ''.'' @ e2) = strip (lower s2) @ ''.'' @ lower e2"
    by (simp add: re_sub_suffix_no_match [OF assms(12)] lower_strip)
  from left right show ?thesis by simp
qed

text \<open>The example of the specification, and one with a directory prefix.\<close>

theorem normalize_filename_suffix_witness:
  "normalize_filename ''plan (3).PDF'' = normalize_filename ''plan.pdf''
   \<and> normalize_filename ''/data/uploads/Plan (12).Pdf'' = normalize_filename ''plan.pdf''"
proof -
  have np: "\<not> ends_with_paren_int ''plan''"
    by (rule ends_with_paren_int_no_bracket) simp
  have a: "normalize_filename ([] @ ''plan'' @ '' '' @ ''('' @ ''3'' @ '')'' @ [] @ ''.'' @ ''PDF'')
             = normalize_filename ([] @ ''plan'' @ ''.'' @ ''pdf'')"
    using np by (intro normalize_filename_suffix)
      (simp_all add: lower_def lower_char_def isupper_def isdigit_def isspace_def)
  have b: "normalize_filename (''/data/uploads/'' @ ''Plan'' @ '' '' @ ''('' @ ''12'' @ '')'' @ [] @ ''.'' @ ''Pdf'')
             = normalize_filename ([] @ ''plan'' @ ''.'' @ ''pdf'')"
    using np by (intro normalize_filename_suffix)
      (simp_all add: lower_def lower_char_def isupper_def isdigit_def isspace_def)
  from a b show ?thesis by simp
qed

text \<open>
  C2 as stated does not hold for every pair: the expression removes one bracketed integer
  only, so a name whose stem already ends in one is not mapped to the same string as the
  name with a second suffix added.
\<close>

theorem normalize_filename_suffix_counterexample:
  "normalize_filename ''plan (2) (3).pdf'' \<noteq> normalize_filename ''plan (2).pdf''"
  by (simp add: normalize_filename_def path_name_def rsplit_dot_def re_sub_suffix_def strip_def
        lower_def lower_char_def isupper_def isspace_def isdigit_def)

section \<open>Properties of the document matcher\<close>

lemma match_tier_sound: "match_tier target s = Inr t \<Longrightarrow> t = tier_of target s"
  unfolding match_tier_def tier_of_def is_exact_def is_basename_def is_normalized_def py_or_def Let_def
  by (cases "asset_file_path s"; cases "title s")
     (auto split: if_splits sum.splits bool.splits)

lemma match_tier_typed: "document_record s \<Longrightarrow> \<exists>t. match_tier target s = Inr t"
  unfolding match_tier_def document_record_def str_or_falsy_def py_or_def Let_def
  by (cases "asset_file_path s"; cases "title s")
     (auto split: if_splits sum.splits bool.splits)


lemma match_loop_sound:
  "match_loop target cs (a, b, c) = Inr (a', b', c') \<Longrightarrow>
     a' = a @ filter (\<lambda>s. tier_of target s = Exact) cs \<and>
     b' = b @ filter (\<lambda>s. tier_of target s = Basename) cs \<and>
     c' = c @ filter (\<lambda>s. tier_of target s = Normalized) cs"
proof (induction cs arbitrary: a b c)
  case Nil
  then show ?case by simp
next
  case (Cons s cs)
  from Cons.prems obtain t where t: "match_tier target s = Inr t"
    by (cases "match_tier target s") auto
  then have eq: "t = tier_of target s" by (rule match_tier_sound)
  show ?case
  proof (cases t)
    case Exact
    with Cons.prems t have "match_loop target cs (a @ [s], b, c) = Inr (a', b', c')" by simp
    from Cons.IH [OF this] eq Exact show ?thesis by simp
  next
    case Basename
    with Cons.prems t have "match_loop target cs (a, b @ [s], c) = Inr (a', b', c')" by simp
    from Cons.IH [OF this] eq Basename show ?thesis by simp
  next
    case Normalized
    with Cons.prems t have "match_loop target cs (a, b, c @ [s]) = Inr (a', b', c')" by simp
    from Cons.IH [OF this] eq Normalized show ?thesis by simp
  next
    case Unmatched
    with Cons.prems t have "match_loop target cs (a, b, c) = Inr (a', b', c')" by simp
    from Cons.IH [OF this] eq Unmatched show ?thesis by simp
  qed
qed

lemma match_loop_typed:
  "\<forall>s \<in> set cs. document_record s \<Longrightarrow> \<exists>r. match_loop target cs acc = Inr r"
proof (induction cs arbitrary: acc)
  case Nil
  show ?case by (simp del: split_paired_Ex)
next
  case (Cons s cs)
  obtain a b c where acc: "acc = (a, b, c)" by (rule prod_cases3)
  from Cons.prems obtain t where t: "match_tier target s = Inr t"
    using match_tier_typed [of s target] by auto
  from Cons.prems have rest: "\<forall>s \<in> set cs. document_record s" by simp
  show ?case
    unfolding acc using t Cons.IH [OF rest] by (cases t) simp_all
qed

lemma sort_key_of_typed: "document_record s \<Longrightarrow> is_str (sort_key_of s)"
  by (auto simp: document_record_def str_or_falsy_def sort_key_of_def py_or_def)

lemma sort_desc_length: "sort_desc rs = Inr ss \<Longrightarrow> length ss = length rs"
  by (auto simp: sort_desc_def split: if_splits)

lemma sort_desc_set: "sort_desc rs = Inr ss \<Longrightarrow> set ss = set rs"
  by (auto simp: sort_desc_def split: if_splits)

lemma sort_desc_typed:
  "\<forall>s \<in> set rs. is_str (sort_key_of s) \<Longrightarrow> \<exists>ss. sort_desc rs = Inr ss"
  by (simp add: sort_desc_def list_all_iff)

lemma sorted_le_last: "sorted xs \<Longrightarrow> x \<in> set xs \<Longrightarrow> x \<le> last xs"
  by (induction xs) auto

lemma hd_rev_sort_key_greatest:
  fixes f :: "'a \<Rightarrow> 'b :: linorder"
  assumes "x \<in> set xs"
  shows "f x \<le> f (hd (rev (sort_key f (rev xs))))"
proof -
  let ?ys = "sort_key f (rev xs)"
  have ne: "?ys \<noteq> []" using assms by (metis empty_iff empty_set set_rev set_sort)
  have "f x \<in> set (map f ?ys)" using assms by simp
  moreover have "sorted (map f ?ys)" by (rule sorted_sort_key)
  ultimately have "f x \<le> last (map f ?ys)" by (intro sorted_le_last)
  also have "\<dots> = f (last ?ys)" using ne by (simp add: last_map)
  also have "last ?ys = hd (rev ?ys)" using ne by (simp add: hd_rev)
  finally show ?thesis .
qed

lemma sort_desc_greatest:
  assumes "sort_desc rs = Inr (m # ms)" and "\<forall>s \<in> set rs. is_str (sort_key_of s)" and "s \<in> set rs"
  shows "str_val (sort_key_of s) \<le> str_val (sort_key_of m)"
proof (cases "length rs \<le> 1")
  case True
  with assms(1) have "rs = m # ms" by (simp add: sort_desc_def)
  with True assms(3) show ?thesis by simp
next
  case False
  with assms(1,2) have "rev (sort_key (\<lambda>it. str_val (sort_key_of it)) (rev rs)) = m # ms"
    by (simp add: sort_desc_def list_all_iff)
  then have "m = hd (rev (sort_key (\<lambda>it. str_val (sort_key_of it)) (rev rs)))" by simp
  then show ?thesis
    using hd_rev_sort_key_greatest [OF assms(3), of "\<lambda>it. str_val (sort_key_of it)"] by simp
qed


lemma select_match_results:
  assumes "select_match target cs = Inr r"
  shows "(best_matches target cs = [] \<and> r = None) \<or>
         (\<exists>m ms. sort_desc (best_matches target cs) = Inr (m # ms) \<and> r = Some m)"
proof -
  from assms obtain a b c where loop: "match_loop target cs ([], [], []) = Inr (a, b, c)"
    unfolding select_match_def by (auto split: sum.splits)
  from match_loop_sound [OF loop] have "first_nonempty a b c = best_matches target cs"
    by (simp add: best_matches_def)
  with assms loop show ?thesis
    unfolding select_match_def by (auto simp: Let_def split: if_splits sum.splits list.splits)
qed

lemma select_match_typed:
  assumes "\<forall>s \<in> set cs. document_record s"
  shows "\<exists>r. select_match target cs = Inr r"
proof -
  from match_loop_typed [OF assms] obtain a b c
    where loop: "match_loop target cs ([], [], []) = Inr (a, b, c)"
    by (metis prod_cases3)
  from match_loop_sound [OF loop] have res: "first_nonempty a b c = best_matches target cs"
    by (simp add: best_matches_def)
  have sub: "set (best_matches target cs) \<subseteq> set cs"
    by (auto simp: best_matches_def first_nonempty_def)
  with assms have "\<forall>s \<in> set (best_matches target cs). is_str (sort_key_of s)"
    by (auto intro: sort_key_of_typed)
  from sort_desc_typed [OF this] obtain ss where ss: "sort_desc (best_matches target cs) = Inr ss"
    by blast
  from sort_desc_length [OF ss] have "best_matches target cs \<noteq> [] \<Longrightarrow> ss \<noteq> []" by auto
  with loop res ss show ?thesis
    unfolding select_match_def by (cases ss) (auto simp: Let_def)
qed

lemma best_matches_empty:
  "best_matches target cs = [] \<longleftrightarrow> (\<forall>s \<in> set cs. tier_of target s = Unmatched)"
proof
  assume e: "best_matches target cs = []"
  show "\<forall>s \<in> set cs. tier_of target s = Unmatched"
  proof
    fix s assume "s \<in> set cs"
    with e show "tier_of target s = Unmatched"
      by (cases "tier_of target s")
         (auto simp: best_matches_def first_nonempty_def filter_empty_conv split: if_splits)
  qed
next
  assume "\<forall>s \<in> set cs. tier_of target s = Unmatched"
  then show "best_matches target cs = []"
    by (simp add: best_matches_def first_nonempty_def filter_empty_conv)
qed

lemma best_matches_best:
  assumes "m \<in> set (best_matches target cs)"
  shows "m \<in> set cs" and "tier_of target m \<noteq> Unmatched"
    and "s \<in> set cs \<Longrightarrow> tier_rank (tier_of target m) \<le> tier_rank (tier_of target s)"
proof -
  from assms show "m \<in> set cs"
    by (auto simp: best_matches_def first_nonempty_def split: if_splits)
  from assms show "tier_of target m \<noteq> Unmatched"
    by (auto simp: best_matches_def first_nonempty_def split: if_splits)
  assume "s \<in> set cs"
  with assms show "tier_rank (tier_of target m) \<le> tier_rank (tier_of target s)"
    by (cases "tier_of target s")
       (auto simp: best_matches_def first_nonempty_def filter_empty_conv split: if_splits)
qed

lemma best_matches_same_tier:
  assumes "m \<in> set (best_matches target cs)" "s \<in> set cs" "tier_of target s = tier_of target m"
  shows "s \<in> set (best_matches target cs)"
  using assms by (auto simp: best_matches_def first_nonempty_def filter_empty_conv split: if_splits)


lemma normalize_items_total:
  "\<forall>x \<in> set xs. \<exists>d. x = JObj d \<Longrightarrow>
     \<exists>ys. map_result normalize_source_item xs = Inr ys \<and> length ys = length xs"
  by (induction xs) (auto simp: Let_def)

lemmas eval_defs =
  Let_def find_source_for_file_def listing_params_def wrap_response_def ok_response_def
  select_match_def match_tier_def sort_desc_def sort_key_of_def first_nonempty_def
  py_or_def dict_get_def dict_get_default_def
  normalize_filename_def path_name_def rsplit_dot_def re_sub_suffix_def strip_def
  lower_def lower_char_def isupper_def isspace_def isdigit_def

text \<open>
  C1: when the listing succeeds and normalizes to \<open>candidates\<close>, the result of
  \<open>find_source_for_file\<close> is taken from the best tier that has a candidate: a returned
  record is one of the candidates, it matches in some tier, and no candidate matches in a
  tier of higher priority, whatever the positions and the timestamps; the result is \<open>None\<close>
  only when no candidate matches in any tier (and then it is \<open>None\<close>, as the returned
  record would be a matching candidate). The call raises only when some candidate is not a
  document record, that is, has a title, path or timestamp that is neither a string nor
  absent.
\<close>

theorem find_source_for_file_priority:
  assumes "backend (GET_sources (listing_params notebook_id)) = Reply resp"
    and "resp_ok resp"
    and "normalize_sources (w_data (wrap_response resp)) = Inr candidates"
  shows "case fst (find_source_for_file backend target notebook_id) of
           Inl e \<Rightarrow> \<not> (\<forall>s \<in> set candidates. document_record s)
         | Inr None \<Rightarrow> \<forall>s \<in> set candidates. tier_of target s = Unmatched
         | Inr (Some m) \<Rightarrow>
             m \<in> set candidates \<and> tier_of target m \<noteq> Unmatched \<and>
             (\<forall>s \<in> set candidates. tier_rank (tier_of target m) \<le> tier_rank (tier_of target s))"
proof -
  have f: "fst (find_source_for_file backend target notebook_id) = select_match target candidates"
    using assms by (simp add: find_source_for_file_def wrap_response_def)
  show ?thesis
  proof (cases "select_match target candidates")
    case (Inl e)
    with select_match_typed [of candidates target] f show ?thesis by auto
  next
    case (Inr r)
    from select_match_results [OF Inr] show ?thesis
    proof
      assume "best_matches target candidates = [] \<and> r = None"
      with f Inr show ?thesis by (simp add: best_matches_empty)
    next
      assume "\<exists>m ms. sort_desc (best_matches target candidates) = Inr (m # ms) \<and> r = Some m"
      then obtain m ms where s: "sort_desc (best_matches target candidates) = Inr (m # ms)"
        and r: "r = Some m" by blast
      from sort_desc_set [OF s] have "m \<in> set (best_matches target candidates)" by auto
      from best_matches_best [OF this] f Inr r show ?thesis by simp
    qed
  qed
qed

text \<open>
  On the example listing the record matching by its stored path is returned, although it
  comes second and is older than the record matching by its normalized title.
\<close>

theorem find_source_for_file_priority_witness:
  "\<exists>m. fst (find_source_for_file example_backend ''a.pdf'' None) = Inr (Some m) \<and>
        id_field m = JStr ''source:1'' \<and> tier_of ''a.pdf'' m \<noteq> Unmatched"
proof -
  obtain cands where c: "normalize_sources (w_data (wrap_response (ok_response example_listing))) = Inr cands"
    by (simp add: example_listing_def wrap_response_def ok_response_def Let_def py_or_def
          dict_get_def dict_get_default_def)
  have b: "example_backend (GET_sources (listing_params None)) = Reply (ok_response example_listing)"
    by (simp add: example_backend_def)
  have k: "resp_ok (ok_response example_listing)"
    by (simp add: ok_response_def)
  obtain m where m: "fst (find_source_for_file example_backend ''a.pdf'' None) = Inr (Some m)"
    and i: "id_field m = JStr ''source:1''"
    by (simp add: example_backend_def example_listing_def eval_defs)
  from find_source_for_file_priority
         [where backend = example_backend and notebook_id = None and target = "''a.pdf''", OF b k c]
       m i
  show ?thesis by simp
qed


lemma sort_key_of_timestamp: "document_record s \<Longrightarrow> sort_key_of s = JStr (timestamp_key s)"
  unfolding document_record_def str_or_falsy_def sort_key_of_def py_or_def timestamp_key_def
  by (cases "updated s"; cases "created s") auto

text \<open>
  C3: among the candidates of the tier of the returned record, none has a greater key than
  the returned record, in the lexicographic order of strings. The key is the \<open>updated\<close>
  timestamp, else the \<open>created\<close> timestamp, else the empty string, which is the least
  string: a record without timestamps is returned only when no candidate of its tier has one.
\<close>

theorem find_source_for_file_most_recent:
  assumes "backend (GET_sources (listing_params notebook_id)) = Reply resp"
    and "resp_ok resp"
    and "normalize_sources (w_data (wrap_response resp)) = Inr candidates"
    and "\<forall>s \<in> set candidates. document_record s"
    and "fst (find_source_for_file backend target notebook_id) = Inr (Some m)"
    and "s \<in> set candidates" and "tier_of target s = tier_of target m"
  shows "timestamp_key s \<le> timestamp_key m"
proof -
  have "fst (find_source_for_file backend target notebook_id) = select_match target candidates"
    using assms(1-3) by (simp add: find_source_for_file_def wrap_response_def)
  with assms(5) have "select_match target candidates = Inr (Some m)" by simp
  from select_match_results [OF this] obtain ms
    where sd: "sort_desc (best_matches target candidates) = Inr (m # ms)" by auto
  from sort_desc_set [OF sd] have m: "m \<in> set (best_matches target candidates)" by auto
  from best_matches_same_tier [OF m assms(6,7)] have s: "s \<in> set (best_matches target candidates)" .
  have sub: "set (best_matches target candidates) \<subseteq> set candidates"
    by (auto simp: best_matches_def first_nonempty_def)
  with assms(4) have keys: "\<forall>s \<in> set (best_matches target candidates). is_str (sort_key_of s)"
    by (auto intro: sort_key_of_typed)
  from sort_desc_greatest [OF sd keys s]
  have "str_val (sort_key_of s) \<le> str_val (sort_key_of m)" .
  moreover have "document_record s" "document_record m"
    using assms(4,6) m sub by auto
  ultimately show ?thesis by (simp add: sort_key_of_timestamp)
qed

text \<open>
  On the listing of three versions the record created in March is returned: its key is
  greater than that of the record updated in February.
\<close>

theorem find_source_for_file_most_recent_witness:
  "\<exists>m. fst (find_source_for_file versions_backend ''a.pdf'' None) = Inr (Some m) \<and>
        id_field m = JStr ''source:8'' \<and> ''2024-02-01'' \<le> timestamp_key m"
proof -
  obtain cands where c: "normalize_sources (w_data (wrap_response (ok_response example_versions))) = Inr cands"
    and t: "\<forall>s \<in> set cands. document_record s"
    and s: "hd cands \<in> set cands" "timestamp_key (hd cands) = ''2024-02-01''"
           "tier_of ''a.pdf'' (hd cands) = Normalized"
    by (simp add: example_versions_def wrap_response_def ok_response_def Let_def py_or_def
          dict_get_def dict_get_default_def document_record_def str_or_falsy_def timestamp_key_def
          tier_of_def is_exact_def is_basename_def is_normalized_def
          normalize_filename_def path_name_def rsplit_dot_def re_sub_suffix_def strip_def
          lower_def lower_char_def isupper_def isspace_def isdigit_def)
  have b: "versions_backend (GET_sources (listing_params None)) = Reply (ok_response example_versions)"
    by (simp add: versions_backend_def)
  have k: "resp_ok (ok_response example_versions)"
    by (simp add: ok_response_def)
  obtain m where m: "fst (find_source_for_file versions_backend ''a.pdf'' None) = Inr (Some m)"
    and i: "id_field m = JStr ''source:8''" and n: "tier_of ''a.pdf'' m = Normalized"
    by (simp add: versions_backend_def example_versions_def eval_defs
          tier_of_def is_exact_def is_basename_def is_normalized_def)
  from find_source_for_file_most_recent
         [where backend = versions_backend and notebook_id = None and target = "''a.pdf''",
          OF b k c t m s(1)] s n m i
  show ?thesis by simp
qed

section \<open>Properties of the uploader\<close>

lemma find_source_for_file_sent:
  "snd (find_source_for_file backend filename notebook_id) = [GET_sources (listing_params notebook_id)]"
  by (simp add: find_source_for_file_def Let_def split: reply.splits sum.splits)

text \<open>
  C5: when the matcher, asked for the derived filename (the title if it is given and not
  empty, else the last component of the local path), returns a record, the upload returns
  a success with status 200 whose sources are exactly that record, and the listing is the
  only request sent: no creation request.
\<close>

theorem upload_skips_existing:
  assumes "fst (find_source_for_file backend (upload_filename file_path title_arg) None) = Inr (Some m)"
  shows "upload_file_and_process backend readable file_path title_arg notebooks embed_flag async_processing
           = (Inr (Success 200 [m] JNull), [GET_sources None])
         \<and> filter is_creation
              (snd (upload_file_and_process backend readable file_path title_arg notebooks
                      embed_flag async_processing)) = []"
proof -
  have "find_source_for_file backend (upload_filename file_path title_arg) None
          = (Inr (Some m), [GET_sources None])"
    using assms find_source_for_file_sent [of backend "upload_filename file_path title_arg" None]
    by (simp add: prod_eq_iff listing_params_def)
  then show ?thesis
    by (simp add: upload_file_and_process_def)
qed

text \<open>
  For a local file \<open>/home/me/a.pdf\<close> and no title the filename is \<open>a.pdf\<close>; on the example
  listing the record with that stored name is returned and nothing is uploaded.
\<close>

theorem upload_skips_existing_witness:
  "\<exists>m. upload_file_and_process example_backend (\<lambda>p. True) ''/home/me/a.pdf'' None None True True
          = (Inr (Success 200 [m] JNull), [GET_sources None])
        \<and> id_field m = JStr ''source:1''"
proof -
  obtain m where m: "fst (find_source_for_file example_backend (upload_filename ''/home/me/a.pdf'' None) None)
                       = Inr (Some m)"
    and i: "id_field m = JStr ''source:1''"
    by (simp add: upload_filename_def example_backend_def example_listing_def eval_defs)
  from upload_skips_existing [OF m, of "\<lambda>p. True" None True True] i show ?thesis by blast
qed

text \<open>
  C10: when the listing request fails, \<open>find_source_for_file\<close> returns \<open>None\<close> without
  raising, \<open>source_exists\<close> returns \<open>False\<close>, and \<open>upload_file_and_process\<close>, for a local
  file it can open, goes on to send the creation request.
\<close>

theorem listing_failure_is_no_match:
  assumes "listing_fails backend"
  shows "find_source_for_file backend filename notebook_id
           = (Inr None, [GET_sources (listing_params notebook_id)])
         \<and> source_exists backend filename = (Inr False, [GET_sources None])
         \<and> (readable file_path \<longrightarrow>
              snd (upload_file_and_process backend readable file_path title_arg notebooks
                     embed_flag async_processing)
                = [GET_sources None,
                   upload_request file_path (upload_filename file_path title_arg) notebooks
                     embed_flag async_processing])"
proof -
  have f: "find_source_for_file backend name nb = (Inr None, [GET_sources (listing_params nb)])"
    for name nb
  proof -
    from assms obtain resp where "backend (GET_sources (listing_params nb)) = Reply resp"
      and "\<not> resp_ok resp"
      unfolding listing_fails_def by blast
    then show ?thesis
      by (simp add: find_source_for_file_def wrap_response_def)
  qed
  have p: "listing_params None = None" by (simp add: listing_params_def)
  have "source_exists backend filename = (Inr False, [GET_sources None])"
    by (simp add: source_exists_def f p)
  moreover have "readable file_path \<longrightarrow>
      snd (upload_file_and_process backend readable file_path title_arg notebooks
             embed_flag async_processing)
        = [GET_sources None,
           upload_request file_path (upload_filename file_path title_arg) notebooks
             embed_flag async_processing]"
    by (simp add: upload_file_and_process_def f p Let_def split: reply.splits sum.splits)
  ultimately show ?thesis using f by simp
qed

text \<open>
  The listing answers 503 and names a matching record in its body: no match is reported,
  and the file is uploaded again.
\<close>

theorem listing_failure_is_no_match_witness:
  "find_source_for_file failing_listing_backend ''a.pdf'' None = (Inr None, [GET_sources None])
   \<and> source_exists failing_listing_backend ''a.pdf'' = (Inr False, [GET_sources None])
   \<and> snd (upload_file_and_process failing_listing_backend (\<lambda>p. True) ''/home/me/a.pdf'' None None True True)
       = [GET_sources None, POST_sources_file ''/home/me/a.pdf'' ''a.pdf'' True True None]"
proof -
  have l: "listing_fails failing_listing_backend"
    by (simp add: listing_fails_def failing_listing_backend_def)
  have n: "upload_filename ''/home/me/a.pdf'' None = ''a.pdf''"
    by (simp add: upload_filename_def path_name_def)
  from listing_failure_is_no_match [OF l, of "''a.pdf''" None "\<lambda>p. True" "''/home/me/a.pdf''" None None True True]
  show ?thesis by (simp add: listing_params_def upload_request_def n)
qed

section \<open>Properties of the status polling\<close>

lemma w_ok_wrap: "w_ok (wrap_response resp) = resp_ok resp"
  by (simp add: wrap_response_def)

lemma poll_response_terminal:
  "(\<exists>r. poll_response resp = Inr (Some r)) \<longleftrightarrow> reports_terminal (Reply resp)"
  by (cases "w_data (wrap_response resp)")
     (auto simp: poll_response_def reported_status_def terminal_status_def py_or_def Let_def
        w_ok_wrap dict_get_def split: if_splits)

lemma poll_response_transient:
  "poll_response resp = Inr None \<longleftrightarrow> transient (Reply resp)"
  by (cases "w_data (wrap_response resp)")
     (auto simp: poll_response_def reported_status_def terminal_status_def py_or_def Let_def
        w_ok_wrap dict_get_def split: if_splits)

lemma poll_response_status:
  "poll_response resp = Inr (Some r) \<Longrightarrow> terminal_status (pr_status r)"
  unfolding poll_response_def terminal_status_def py_or_def Let_def
  by (auto split: if_splits sum.splits)

lemma poll_loop_continues:
  assumes "transient rep" and "elapsed \<le> timeout"
  shows "poll_loop timeout ((rep, elapsed) # rest) m = poll_loop timeout rest (Suc m)"
proof (cases rep)
  case (Reply resp)
  with assms(1) have "poll_response resp = Inr None" by (simp add: poll_response_transient)
  with Reply assms(2) show ?thesis by simp
next
  case (Fails e)
  with assms(1) show ?thesis by simp
qed

lemma poll_loop_skip:
  "k \<le> length script \<Longrightarrow>
   \<forall>j < k. transient (fst (script ! j)) \<and> snd (script ! j) \<le> timeout \<Longrightarrow>
   poll_loop timeout script m = poll_loop timeout (drop k script) (m + k)"
proof (induction k arbitrary: script m)
  case 0
  show ?case by simp
next
  case (Suc k)
  then obtain rep elapsed rest where script: "script = (rep, elapsed) # rest"
    by (cases script) auto
  from Suc.prems(2) have h: "transient rep" "elapsed \<le> timeout"
    unfolding script by force+
  from Suc.prems have "k \<le> length rest"
    and "\<forall>j < k. transient (fst (rest ! j)) \<and> snd (rest ! j) \<le> timeout"
    unfolding script by auto
  from Suc.IH [OF this] poll_loop_continues [OF h] show ?case
    unfolding script by simp
qed

lemma poll_loop_returns:
  "poll_loop timeout script m = Some (Inr r, n) \<Longrightarrow>
   terminal_status (pr_status r) \<and>
   (\<exists>k. n = Suc (m + k) \<and> k < length script \<and> reports_terminal (fst (script ! k)) \<and>
        (\<forall>j < k. transient (fst (script ! j)) \<and> snd (script ! j) \<le> timeout))"
proof (induction script arbitrary: m)
  case Nil
  then show ?case by simp
next
  case (Cons tick rest)
  obtain rep elapsed where tick: "tick = (rep, elapsed)" by (cases tick) auto
  show ?case
  proof (cases rep)
    case (Fails e)
    with Cons.prems tick show ?thesis by simp
  next
    case (Reply resp)
    show ?thesis
    proof (cases "poll_response resp")
      case (Inl e)
      with Cons.prems tick Reply show ?thesis by simp
    next
      case (Inr res)
      show ?thesis
      proof (cases res)
        case (Some r')
        with Inr have "reports_terminal (Reply resp)"
          using poll_response_terminal [of resp] by auto
        moreover from Cons.prems tick Reply Inr Some have "n = Suc m" "r = r'" by simp_all
        moreover from Inr Some have "terminal_status (pr_status r')"
          by (intro poll_response_status) simp
        ultimately show ?thesis using tick Reply by (intro conjI exI [of _ 0]) simp_all
      next
        case None
        with Inr have tr: "transient rep" using Reply by (simp add: poll_response_transient)
        from Cons.prems tick Reply Inr None have le: "elapsed \<le> timeout"
          by (auto split: if_splits)
        with Cons.prems tick Reply Inr None have "poll_loop timeout rest (Suc m) = Some (Inr r, n)"
          by simp
        from Cons.IH [OF this] obtain k where st: "terminal_status (pr_status r)"
          and k: "n = Suc (Suc m + k)" "k < length rest"
          "reports_terminal (fst (rest ! k))"
          "\<forall>j < k. transient (fst (rest ! j)) \<and> snd (rest ! j) \<le> timeout" by blast
        have "\<forall>j < Suc k. transient (fst ((tick # rest) ! j)) \<and> snd ((tick # rest) ! j) \<le> timeout"
          using k(4) tr le tick by (auto simp: nth_Cons split: nat.splits)
        with k(1-3) st show ?thesis by (intro conjI exI [of _ "Suc k"]) simp_all
      qed
    qed
  qed
qed

lemma poll_loop_at:
  assumes "k < length script"
    and "\<forall>j < k. transient (fst (script ! j)) \<and> snd (script ! j) \<le> timeout"
  shows "poll_loop timeout script 0
           = poll_loop timeout ((fst (script ! k), snd (script ! k)) # drop (Suc k) script) k"
  using poll_loop_skip [of k script timeout 0] assms by (simp add: Cons_nth_drop_Suc)

text \<open>
  C4. The script gives, round by round, the reply to the status request and the time elapsed
  when the loop reads the clock. The call returns a result after \<open>n\<close> requests exactly when
  the \<open>n\<close>-th reply reports \<open>completed\<close> or \<open>failed\<close> and every reply before it was
  transient and in time; the status returned is terminal. A transient reply (a response that is not \<open>ok\<close>, or one
  without a terminal status) in time never ends the loop: the loop goes on with the next
  round. And the first round that reads a time beyond the timeout, with no terminal status
  so far, ends the call with TimeoutError.
\<close>

theorem poll_source_status_outcomes:
  "((\<exists>r. poll_source_status timeout script = Some (Inr r, n)) \<longleftrightarrow>
      (\<exists>k. n = Suc k \<and> k < length script \<and> reports_terminal (fst (script ! k)) \<and>
           (\<forall>j < k. transient (fst (script ! j)) \<and> snd (script ! j) \<le> timeout)))
   \<and> (poll_source_status timeout script = Some (Inr r, n) \<longrightarrow> terminal_status (pr_status r))
   \<and> (transient rep \<and> elapsed \<le> timeout \<longrightarrow>
        poll_loop timeout ((rep, elapsed) # rest) m = poll_loop timeout rest (Suc m))
   \<and> (k < length script \<and> transient (fst (script ! k)) \<and> timeout < snd (script ! k) \<and>
       (\<forall>j < k. transient (fst (script ! j)) \<and> snd (script ! j) \<le> timeout) \<longrightarrow>
        poll_source_status timeout script = Some (Inl TimeoutError, Suc k))"
proof (intro conjI impI)
  show "(\<exists>r. poll_source_status timeout script = Some (Inr r, n)) \<longleftrightarrow>
      (\<exists>k. n = Suc k \<and> k < length script \<and> reports_terminal (fst (script ! k)) \<and>
           (\<forall>j < k. transient (fst (script ! j)) \<and> snd (script ! j) \<le> timeout))"
  proof
    assume "\<exists>r. poll_source_status timeout script = Some (Inr r, n)"
    then obtain r where "poll_loop timeout script 0 = Some (Inr r, n)"
      by (auto simp: poll_source_status_def)
    from poll_loop_returns [OF this] show "\<exists>k. n = Suc k \<and> k < length script \<and>
        reports_terminal (fst (script ! k)) \<and>
        (\<forall>j < k. transient (fst (script ! j)) \<and> snd (script ! j) \<le> timeout)" by simp
  next
    assume "\<exists>k. n = Suc k \<and> k < length script \<and> reports_terminal (fst (script ! k)) \<and>
        (\<forall>j < k. transient (fst (script ! j)) \<and> snd (script ! j) \<le> timeout)"
    then obtain k where k: "n = Suc k" "k < length script" "reports_terminal (fst (script ! k))"
      "\<forall>j < k. transient (fst (script ! j)) \<and> snd (script ! j) \<le> timeout" by blast
    from k(3) obtain resp where resp: "fst (script ! k) = Reply resp"
      by (cases "fst (script ! k)") auto
    with k(3) obtain r where "poll_response resp = Inr (Some r)"
      using poll_response_terminal [of resp] by auto
    with resp have "poll_loop timeout ((fst (script ! k), snd (script ! k)) # drop (Suc k) script) k
                      = Some (Inr r, Suc k)" by simp
    with poll_loop_at [OF k(2,4)] k(1) show "\<exists>r. poll_source_status timeout script = Some (Inr r, n)"
      by (auto simp: poll_source_status_def)
  qed
next
  assume "poll_source_status timeout script = Some (Inr r, n)"
  then have "poll_loop timeout script 0 = Some (Inr r, n)"
    by (simp add: poll_source_status_def)
  from poll_loop_returns [OF this] show "terminal_status (pr_status r)" by simp
next
  assume "transient rep \<and> elapsed \<le> timeout"
  then have "transient rep" "elapsed \<le> timeout" by simp_all
  then show "poll_loop timeout ((rep, elapsed) # rest) m = poll_loop timeout rest (Suc m)"
    by (rule poll_loop_continues)
next
  assume a: "k < length script \<and> transient (fst (script ! k)) \<and> timeout < snd (script ! k) \<and>
       (\<forall>j < k. transient (fst (script ! j)) \<and> snd (script ! j) \<le> timeout)"
  then obtain resp where resp: "fst (script ! k) = Reply resp"
    by (cases "fst (script ! k)") auto
  with a have "poll_response resp = Inr None" by (simp add: poll_response_transient)
  with resp a have "poll_loop timeout ((fst (script ! k), snd (script ! k)) # drop (Suc k) script) k
                      = Some (Inl TimeoutError, Suc k)" by simp
  with poll_loop_at [of k script timeout] a
  show "poll_source_status timeout script = Some (Inl TimeoutError, Suc k)"
    by (simp add: poll_source_status_def)
qed

lemma all_less_2: "(\<forall>j < 2. P j) \<longleftrightarrow> P 0 \<and> P (1::nat)"
  by (auto simp: numeral_2_eq_2 less_Suc_eq)

text \<open>
  On the example script with a timeout of 600 seconds the call returns after exactly three
  requests, the response 500 in between notwithstanding; with a timeout of 3 seconds it
  ends with TimeoutError at the second request.
\<close>

theorem poll_source_status_outcomes_witness:
  "(\<exists>r. poll_source_status 600 example_script = Some (Inr r, 3))
   \<and> poll_source_status 3 example_script = Some (Inl TimeoutError, 2)"
proof -
  have t: "transient (fst (example_script ! 0))" "transient (fst (example_script ! 1))"
    "reports_terminal (fst (example_script ! 2))"
    by (simp_all add: example_script_def ok_response_def wrap_response_def reported_status_def
          terminal_status_def dict_get_def)
  have e: "snd (example_script ! 0) = 2" "snd (example_script ! 1) = 4" "length example_script = 3"
    by (simp_all add: example_script_def)
  have "\<exists>k. (3::nat) = Suc k \<and> k < length example_script \<and> reports_terminal (fst (example_script ! k)) \<and>
          (\<forall>j < k. transient (fst (example_script ! j)) \<and> snd (example_script ! j) \<le> 600)"
    using t e by (intro exI [of _ 2]) (simp add: all_less_2)
  with poll_source_status_outcomes [of 600 example_script 3]
  have a: "\<exists>r. poll_source_status 600 example_script = Some (Inr r, 3)" by blast
  have "(1::nat) < length example_script \<and> transient (fst (example_script ! 1)) \<and>
        3 < snd (example_script ! 1) \<and>
        (\<forall>j < 1. transient (fst (example_script ! j)) \<and> snd (example_script ! j) \<le> 3)"
    using t e by simp
  with poll_source_status_outcomes [where timeout = 3 and script = example_script and k = 1]
  have "poll_source_status 3 example_script = Some (Inl TimeoutError, Suc 1)" by blast
  with a show ?thesis by (simp add: numeral_2_eq_2)
qed

section \<open>Properties of the response normalizer\<close>

text \<open>
  C6, as the code has it. A dict with a list under \<open>results\<close> is normalized as that list,
  whatever else it holds; a dict without such a list and with a true \<open>id\<close> or \<open>title\<close> is
  normalized as the one-element list holding it; and a list of dicts is normalized element
  by element, without an exception.
\<close>

theorem normalize_sources_shapes:
  "(map_of d ''results'' = Some (JList xs) \<longrightarrow>
      normalize_sources (JObj d) = normalize_sources (JList xs))
   \<and> ((\<forall>rs. map_of d ''results'' \<noteq> Some (JList rs)) \<and>
       (truthy (dict_get d ''id'') \<or> truthy (dict_get d ''title'')) \<longrightarrow>
      normalize_sources (JObj d) = normalize_sources (JList [JObj d]))
   \<and> ((\<forall>x \<in> set ys. \<exists>item. x = JObj item) \<longrightarrow>
      (\<exists>rs. normalize_sources (JList ys) = Inr rs \<and> length rs = length ys \<and>
            (\<forall>i < length ys. normalize_source_item (ys ! i) = Inr (rs ! i))))"
proof (intro conjI impI)
  assume "map_of d ''results'' = Some (JList xs)"
  then show "normalize_sources (JObj d) = normalize_sources (JList xs)" by simp
next
  assume "(\<forall>rs. map_of d ''results'' \<noteq> Some (JList rs)) \<and>
          (truthy (dict_get d ''id'') \<or> truthy (dict_get d ''title''))"
  then show "normalize_sources (JObj d) = normalize_sources (JList [JObj d])"
    by (auto simp: py_or_def split: option.splits json.splits)
next
  assume "\<forall>x \<in> set ys. \<exists>item. x = JObj item"
  then have "\<exists>rs. map_result normalize_source_item ys = Inr rs \<and> length rs = length ys \<and>
              (\<forall>i < length ys. normalize_source_item (ys ! i) = Inr (rs ! i))"
  proof (induction ys)
    case Nil
    show ?case by simp
  next
    case (Cons y ys)
    then obtain rs where rs: "map_result normalize_source_item ys = Inr rs" "length rs = length ys"
      "\<forall>i < length ys. normalize_source_item (ys ! i) = Inr (rs ! i)" by auto
    from Cons.prems obtain item where y: "y = JObj item" by auto
    obtain r where r: "normalize_source_item y = Inr r" unfolding y by (simp add: Let_def)
    have "\<forall>i < length (y # ys). normalize_source_item ((y # ys) ! i) = Inr ((r # rs) ! i)"
      using r rs(3) by (auto simp: nth_Cons split: nat.splits)
    with r rs(1,2) show ?case by simp
  qed
  then show "\<exists>rs. normalize_sources (JList ys) = Inr rs \<and> length rs = length ys \<and>
              (\<forall>i < length ys. normalize_source_item (ys ! i) = Inr (rs ! i))" by simp
qed

text \<open>
  A dict with a list of one record under \<open>results\<close>, and a single record, both give the
  normalization of the one-element list.
\<close>

theorem normalize_sources_shapes_witness:
  "normalize_sources (JObj [(''results'', JList [JObj [(''id'', JStr ''source:1'')]])])
     = normalize_sources (JList [JObj [(''id'', JStr ''source:1'')]])
   \<and> normalize_sources (JObj [(''id'', JStr ''source:1'')])
     = normalize_sources (JList [JObj [(''id'', JStr ''source:1'')]])
   \<and> (\<exists>rs. normalize_sources (JList [JObj [(''id'', JStr ''source:1'')]]) = Inr rs \<and> length rs = 1)"
  using normalize_sources_shapes
          [of "[(''results'', JList [JObj [(''id'', JStr ''source:1'')]])]" "[JObj [(''id'', JStr ''source:1'')]]"
              "[JObj [(''id'', JStr ''source:1'')]]"]
        normalize_sources_shapes
          [of "[(''id'', JStr ''source:1'')]" "[]" "[]"]
  by (simp add: dict_get_def dict_get_default_def py_or_def Let_def)

text \<open>
  C6 as stated does not hold: the test for a list under \<open>results\<close> comes before the test
  for a single record, so a record that also has a \<open>results\<close> field is not wrapped; it is
  normalized as its \<open>results\<close> list, here the empty list.
\<close>

theorem normalize_sources_shapes_counterexample:
  "normalize_sources (JObj [(''id'', JStr ''source:1''), (''results'', JList [])]) = Inr []
   \<and> normalize_sources (JObj [(''id'', JStr ''source:1''), (''results'', JList [])])
       \<noteq> normalize_sources (JList [JObj [(''id'', JStr ''source:1''), (''results'', JList [])]])"
  by (simp add: Let_def)

text \<open>
  C7: the normalizer is meant never to raise. On a list with an element that is not a
  dict the code raises AttributeError: \<open>_normalize_source_item\<close> calls \<open>item.get\<close> on it.
\<close>

theorem normalize_sources_raises_on_non_dict_element:
  "normalize_sources (JList [JNum 1]) = Inl AttributeError"
  by simp

section \<open>Properties of the query client\<close>

lemma stream_loop_sound:
  "stream_loop jl ls (ev0, ch0) = Inr (evs, chs) \<Longrightarrow>
     evs = ev0 @ stream_events jl ls \<and>
     chs = ch0 @ map ai_content (filter is_ai_message (stream_events jl ls))"
proof (induction ls arbitrary: ev0 ch0)
  case Nil
  then show ?case by (simp add: stream_events_def)
next
  case (Cons raw ls)
  show ?case
  proof (cases "raw = []")
    case True
    with Cons.prems have "stream_loop jl ls (ev0, ch0) = Inr (evs, chs)" by simp
    from Cons.IH [OF this] True show ?thesis by (simp add: stream_events_def)
  next
    case False
    show ?thesis
    proof (cases "jl (line_body raw)")
      case None
      let ?t = "JObj [(''type'', JStr ''text''), (''text'', JStr (line_body raw))]"
      from Cons.prems False None have "stream_loop jl ls (ev0 @ [?t], ch0) = Inr (evs, chs)"
        by (simp add: Let_def)
      from Cons.IH [OF this] have "evs = (ev0 @ [?t]) @ stream_events jl ls"
        and "chs = ch0 @ map ai_content (filter is_ai_message (stream_events jl ls))" by simp_all
      moreover have "event_of jl raw = ?t" using None by (simp add: event_of_def)
      moreover have "\<not> is_ai_message ?t" by (simp add: is_ai_message_def py_or_def dict_get_def)
      ultimately show ?thesis using False by (simp add: stream_events_def)
    next
      case (Some ev)
      then have e: "event_of jl raw = ev" by (simp add: event_of_def)
      from Cons.prems False Some obtain d where d: "ev = JObj d"
        by (cases ev) (simp_all add: Let_def)
      show ?thesis
      proof (cases "is_ai_message ev")
        case True
        with Cons.prems False Some d
        have "stream_loop jl ls (ev0 @ [ev], ch0 @ [ai_content ev]) = Inr (evs, chs)"
          by (simp add: Let_def is_ai_message_def)
        from Cons.IH [OF this] e True False show ?thesis by (simp add: stream_events_def)
      next
        case no: False
        with Cons.prems False Some d
        have "stream_loop jl ls (ev0 @ [ev], ch0) = Inr (evs, chs)"
          by (simp add: Let_def is_ai_message_def)
        from Cons.IH [OF this] e no False show ?thesis by (simp add: stream_events_def)
      qed
    qed
  qed
qed

lemma stream_loop_total:
  "well_formed_stream jl ls \<Longrightarrow> \<exists>r. stream_loop jl ls acc = Inr r"
proof (induction ls arbitrary: acc)
  case Nil
  show ?case by (simp del: split_paired_Ex)
next
  case (Cons raw ls)
  obtain ev0 ch0 where acc: "acc = (ev0, ch0)" by (cases acc) auto
  from Cons.prems have wf: "well_formed_stream jl ls"
    by (auto simp: well_formed_stream_def stream_events_def)
  show ?case
  proof (cases "raw = []")
    case True
    with Cons.IH [OF wf] show ?thesis unfolding acc by simp
  next
    case False
    show ?thesis
    proof (cases "jl (line_body raw)")
      case None
      with False Cons.IH [OF wf] show ?thesis unfolding acc by (simp add: Let_def)
    next
      case (Some ev)
      with False Cons.prems have "is_obj ev"
        by (simp add: well_formed_stream_def stream_events_def event_of_def)
      then obtain d where "ev = JObj d" by (cases ev) auto
      with False Some Cons.IH [OF wf] show ?thesis unfolding acc by (simp add: Let_def)
    qed
  qed
qed

lemma join_chunks_strings:
  "join_chunks chs = Inr t \<Longrightarrow> t = concat (map str_val chs)"
  by (induction chs arbitrary: t rule: join_chunks.induct) (auto split: sum.splits)

lemma join_chunks_total:
  "\<forall>c \<in> set chs. is_str c \<Longrightarrow> \<exists>t. join_chunks chs = Inr t"
proof (induction chs)
  case Nil
  show ?case by simp
next
  case (Cons c chs)
  then obtain s t where "c = JStr s" "join_chunks chs = Inr t" by (cases c) auto
  then show ?case by simp
qed

lemma read_stream_sound:
  assumes "read_stream jl ls = Inr res"
  shows "res = stream_answer jl ls"
proof -
  from assms obtain evs chs t where l: "stream_loop jl ls ([], []) = Inr (evs, chs)"
    and j: "join_chunks chs = Inr t" and r: "res = Streamed (length chs) t evs"
    unfolding read_stream_def by (auto split: sum.splits)
  from stream_loop_sound [OF l] join_chunks_strings [OF j] r show ?thesis
    by (simp add: stream_answer_def comp_def)
qed

lemma read_stream_total:
  assumes "well_formed_stream jl ls"
  shows "read_stream jl ls = Inr (stream_answer jl ls)"
proof -
  from stream_loop_total [OF assms] obtain evs chs
    where l: "stream_loop jl ls ([], []) = Inr (evs, chs)" by (metis surj_pair)
  from stream_loop_sound [OF l]
  have chs: "chs = map ai_content (filter is_ai_message (stream_events jl ls))" by simp
  with assms have "\<forall>c \<in> set chs. is_str c"
    by (auto simp: well_formed_stream_def)
  from join_chunks_total [OF this] obtain t where "join_chunks chs = Inr t" by blast
  with l have "\<exists>res. read_stream jl ls = Inr res" by (simp add: read_stream_def)
  then obtain res where res: "read_stream jl ls = Inr res" by blast
  from read_stream_sound [OF res] res show ?thesis by simp
qed

lemma ask_stream:
  assumes "fst (ask jl backend now prompt (sid # others) mo) = Inr res"
  shows "\<exists>r. backend (last (snd (ask jl backend now prompt (sid # others) mo))) = Reply r \<and>
             read_stream jl (resp_lines r) = Inr res"
  using assms
  unfolding ask_def and_then_def send_json_def send_status_def json_result_def status_result_def Let_def
  by (auto split: sum.splits prod.splits reply.splits if_splits option.splits)


lemma ask_reaches_stream:
  assumes "is_message_request (last (snd (ask jl backend now prompt (sid # others) mo)))"
    and "backend (last (snd (ask jl backend now prompt (sid # others) mo))) = Reply r"
    and "resp_ok r" and "well_formed_stream jl (resp_lines r)"
  shows "fst (ask jl backend now prompt (sid # others) mo) = Inr (stream_answer jl (resp_lines r))"
  using assms read_stream_total [OF assms(4)]
  unfolding ask_def and_then_def send_json_def send_status_def json_result_def status_result_def Let_def
  by (auto split: sum.splits prod.splits reply.splits if_splits option.splits)

text \<open>
  C8. When \<open>ask\<close> with source ids returns, its result is the answer of the stream it
  read: the events are the decoded lines and the text events, in order; the answer is the
  concatenation, in order, of the contents of the events tagged \<open>ai_message\<close>; \<open>total\<close> is
  their number. It does return this result whenever the call gets as far as the message
  request and the response is \<open>ok\<close> and well formed. A line that does not decode is
  recorded as a text event, which is not tagged \<open>ai_message\<close> and so adds nothing to the
  answer; it has no part in whether the stream is well formed, so it never ends the loop.
\<close>

theorem ask_answer_is_concatenation:
  "(fst (ask jl backend now prompt (sid # others) mo) = Inr res \<longrightarrow>
      (\<exists>r. backend (last (snd (ask jl backend now prompt (sid # others) mo))) = Reply r \<and>
           res = stream_answer jl (resp_lines r)))
   \<and> (is_message_request (last (snd (ask jl backend now prompt (sid # others) mo))) \<and>
       backend (last (snd (ask jl backend now prompt (sid # others) mo))) = Reply r \<and>
       resp_ok r \<and> well_formed_stream jl (resp_lines r) \<longrightarrow>
      fst (ask jl backend now prompt (sid # others) mo) = Inr (stream_answer jl (resp_lines r)))
   \<and> (jl (line_body line) = None \<longrightarrow>
        event_of jl line = JObj [(''type'', JStr ''text''), (''text'', JStr (line_body line))] \<and>
        \<not> is_ai_message (event_of jl line) \<and>
        well_formed_stream jl (line # lines) = well_formed_stream jl lines)"
proof (intro conjI impI)
  assume "fst (ask jl backend now prompt (sid # others) mo) = Inr res"
  from ask_stream [OF this] obtain r
    where "backend (last (snd (ask jl backend now prompt (sid # others) mo))) = Reply r"
      and "read_stream jl (resp_lines r) = Inr res" by blast
  with read_stream_sound [of jl "resp_lines r" res]
  show "\<exists>r. backend (last (snd (ask jl backend now prompt (sid # others) mo))) = Reply r \<and>
           res = stream_answer jl (resp_lines r)" by blast
next
  assume "is_message_request (last (snd (ask jl backend now prompt (sid # others) mo))) \<and>
       backend (last (snd (ask jl backend now prompt (sid # others) mo))) = Reply r \<and>
       resp_ok r \<and> well_formed_stream jl (resp_lines r)"
  then show "fst (ask jl backend now prompt (sid # others) mo) = Inr (stream_answer jl (resp_lines r))"
    by (intro ask_reaches_stream) simp_all
next
  assume n: "jl (line_body line) = None"
  then show e: "event_of jl line = JObj [(''type'', JStr ''text''), (''text'', JStr (line_body line))]"
    by (simp add: event_of_def)
  then show a: "\<not> is_ai_message (event_of jl line)"
    by (simp add: is_ai_message_def py_or_def dict_get_def)
  from e a show "well_formed_stream jl (line # lines) = well_formed_stream jl lines"
    by (simp add: well_formed_stream_def stream_events_def)
qed

text \<open>
  On the example stream the two chunks are joined in their order of arrival; the empty
  line gives no event, the line of plain text gives a text event.
\<close>

theorem ask_answer_is_concatenation_witness:
  "fst (ask example_loads stream_backend 0 ''question'' [''source:1''] None)
     = Inr (Streamed 2 ''partial-answer''
              [JObj [(''type'', JStr ''ai_message''), (''content'', JStr ''partial-'')],
               JObj [(''type'', JStr ''text''), (''text'', JStr ''thinking...'')],
               JObj [(''type'', JStr ''tool_call'')],
               JObj [(''event'', JStr ''ai_message''), (''data'', JStr ''answer'')]])"
proof -
  let ?r = "\<lparr> resp_ok = True, resp_status_code = 200, resp_text = ''(stream)'',
              resp_json = None, resp_lines = example_stream \<rparr>"
  have b: "line_body ''data: {ai1}'' = ''{ai1}''" "line_body ''thinking...'' = ''thinking...''"
    "line_body ''data:{tool}'' = ''{tool}''" "line_body '' {ai2} '' = ''{ai2}''"
    by (simp_all add: line_body_def strip_def startswith_def isspace_def)
  have ev: "stream_events example_loads example_stream
              = [JObj [(''type'', JStr ''ai_message''), (''content'', JStr ''partial-'')],
                 JObj [(''type'', JStr ''text''), (''text'', JStr ''thinking...'')],
                 JObj [(''type'', JStr ''tool_call'')],
                 JObj [(''event'', JStr ''ai_message''), (''data'', JStr ''answer'')]]"
    by (simp add: stream_events_def example_stream_def event_of_def b example_loads_def)
  have s: "snd (ask example_loads stream_backend 0 ''question'' [''source:1''] None)
             = [GET_models_defaults, POST_source_chat_sessions ''source:1'' 0 JNull,
                POST_source_chat_messages ''source:1'' (JStr ''session:1'') ''question'' JNull]"
    by (simp add: ask_def and_then_def send_json_def send_status_def json_result_def status_result_def fetch_defaults_def or_get2_def
          stream_backend_def ok_response_def py_or_def dict_get_def Let_def)
  have "is_message_request (last (snd (ask example_loads stream_backend 0 ''question'' [''source:1''] None))) \<and>
        stream_backend (last (snd (ask example_loads stream_backend 0 ''question'' [''source:1''] None))) = Reply ?r \<and>
        resp_ok ?r \<and> well_formed_stream example_loads (resp_lines ?r)"
    by (simp add: s stream_backend_def well_formed_stream_def ev is_ai_message_def py_or_def dict_get_def)
  with ask_answer_is_concatenation
         [where jl = example_loads and backend = stream_backend and now = 0 and prompt = "''question''"
            and sid = "''source:1''" and others = "[]" and mo = None and r = ?r]
  have "fst (ask example_loads stream_backend 0 ''question'' [''source:1''] None)
          = Inr (stream_answer example_loads (resp_lines ?r))" by blast
  then show ?thesis
    by (simp add: stream_answer_def ev is_ai_message_def py_or_def dict_get_def)
qed

lemma omitted_truthy: "omitted x \<longleftrightarrow> \<not> truthy (opt_str x)"
  by (cases x) (auto simp: omitted_def)

lemma and_then_pair:
  "and_then (v, s) f = (case v of Inl e \<Rightarrow> (Inl e, s) | Inr x \<Rightarrow> f x s)"
  by (simp add: and_then_def)

lemmas step_defs = and_then_pair send_json_def send_status_def

lemma notebook_context_creations:
  "filter is_notebook_creation (snd (notebook_context backend t_nb source_id notebook_id))
     = (if omitted notebook_id then [POST_notebooks t_nb] else [])"
  "filter is_session_creation (snd (notebook_context backend t_nb source_id notebook_id)) = []"
  unfolding notebook_context_def omitted_truthy
  by (auto simp: step_defs split: sum.splits)

lemma notebook_execute_sent:
  "\<exists>rest. snd (notebook_execute backend defaults message model_override nb ctx sid sent5) = sent5 @ rest \<and>
     filter is_notebook_creation rest = [] \<and> filter is_session_creation rest = []"
  unfolding notebook_execute_def
  by (auto simp: step_defs split: sum.splits)

lemma notebook_ask_sent:
  "\<exists>rest. snd (notebook_ask backend t_nb t_sess source_id message model_override notebook_id session_id)
     = snd (notebook_context backend t_nb source_id notebook_id) @ rest \<and>
     filter is_notebook_creation rest = [] \<and>
     length (filter is_session_creation rest)
       = (if omitted session_id \<and> (\<exists>x. fst (notebook_context backend t_nb source_id notebook_id) = Inr x)
          then 1 else 0)"
proof (cases "notebook_context backend t_nb source_id notebook_id")
  case (Pair res sent4)
  show ?thesis
  proof (cases res)
    case (Inl e)
    with Pair show ?thesis
      by (simp add: notebook_ask_def and_then_pair)
  next
    case (Inr x)
    obtain nb ctx where x: "x = (nb, ctx)" by (cases x) auto
    let ?run = "\<lambda>sid sent5. notebook_execute backend (fetch_defaults backend) message model_override
                               nb ctx sid sent5"
    show ?thesis
    proof (cases "omitted session_id")
      case False
      obtain rest where "snd (?run (opt_str session_id) sent4) = sent4 @ rest"
        "filter is_notebook_creation rest = []" "filter is_session_creation rest = []"
        using notebook_execute_sent by blast
      with False show ?thesis
        unfolding notebook_ask_def Pair Inr x Let_def
        by (simp add: and_then_pair omitted_truthy)
    next
      case True
      let ?req = "POST_chat_sessions nb t_sess"
      show ?thesis
      proof (cases "and_then (send_json backend ?req sent4) (\<lambda>sess sent. (obj_get sess ''id'', sent))")
        case (Pair r5 sent5)
        then have s5: "sent5 = sent4 @ [?req]"
          by (auto simp: step_defs split: sum.splits)
        show ?thesis
        proof (cases r5)
          case (Inl e)
          with True Pair s5 show ?thesis
            unfolding notebook_ask_def \<open>notebook_context backend t_nb source_id notebook_id = (res, sent4)\<close>
              Inr x Let_def
            by (simp add: and_then_pair omitted_truthy)
        next
          case sid: (Inr sid)
          obtain rest where "snd (?run sid sent5) = sent5 @ rest"
            "filter is_notebook_creation rest = []" "filter is_session_creation rest = []"
            using notebook_execute_sent by blast
          with True Pair s5 sid show ?thesis
            unfolding notebook_ask_def \<open>notebook_context backend t_nb source_id notebook_id = (res, sent4)\<close>
              Inr x Let_def
            by (simp add: and_then_pair omitted_truthy)
        qed
      qed
    qed
  qed
qed

text \<open>
  C9, as the code has it. The request that creates the notebook is sent exactly once when
  \<open>notebook_id\<close> is omitted and never when it is supplied, whatever the backend answers.
  The request that creates the session is sent exactly once when \<open>session_id\<close> is omitted
  and the steps before it (the creation of the notebook, the link, the context) have
  succeeded; it is never sent when \<open>session_id\<close> is supplied, nor when one of these steps
  has failed, as the call ends there.
\<close>

theorem notebook_ask_creations:
  "length (filter is_notebook_creation
             (snd (notebook_ask backend t_nb t_sess source_id message model_override notebook_id session_id)))
     = (if omitted notebook_id then 1 else 0)
   \<and> length (filter is_session_creation
               (snd (notebook_ask backend t_nb t_sess source_id message model_override notebook_id session_id)))
     = (if omitted session_id \<and> (\<exists>x. fst (notebook_context backend t_nb source_id notebook_id) = Inr x)
        then 1 else 0)"
proof -
  from notebook_ask_sent [of backend t_nb t_sess source_id message model_override notebook_id session_id]
  obtain rest where
    s: "snd (notebook_ask backend t_nb t_sess source_id message model_override notebook_id session_id)
          = snd (notebook_context backend t_nb source_id notebook_id) @ rest"
    and n: "filter is_notebook_creation rest = []"
    and c: "length (filter is_session_creation rest)
              = (if omitted session_id \<and> (\<exists>x. fst (notebook_context backend t_nb source_id notebook_id) = Inr x)
                 then 1 else 0)"
    by blast
  show ?thesis
    unfolding s using n c by (simp add: notebook_context_creations)
qed

text \<open>
  On a backend where every step succeeds: one creation of each kind when both ids are
  omitted, none when both are supplied.
\<close>

theorem notebook_ask_creations_witness:
  "length (filter is_notebook_creation
             (snd (notebook_ask notebook_backend 1 2 ''source:1'' ''question'' None None None))) = 1
   \<and> length (filter is_session_creation
               (snd (notebook_ask notebook_backend 1 2 ''source:1'' ''question'' None None None))) = 1
   \<and> length (filter is_notebook_creation
               (snd (notebook_ask notebook_backend 1 2 ''source:1'' ''question'' None
                       (Some ''notebook:5'') (Some ''session:3'')))) = 0
   \<and> length (filter is_session_creation
               (snd (notebook_ask notebook_backend 1 2 ''source:1'' ''question'' None
                       (Some ''notebook:5'') (Some ''session:3'')))) = 0"
proof -
  have "\<exists>x. fst (notebook_context notebook_backend 1 ''source:1'' None) = Inr x"
    by (simp add: notebook_context_def step_defs json_result_def status_result_def
          notebook_backend_def ok_response_def dict_get_def)
  with notebook_ask_creations [of notebook_backend 1 2 "''source:1''" "''question''" None None None]
       notebook_ask_creations [of notebook_backend 1 2 "''source:1''" "''question''" None
                                  "Some ''notebook:5''" "Some ''session:3''"]
  show ?thesis by (simp add: omitted_def)
qed

text \<open>
  C9 as stated does not hold for the session: when the link of the source fails (here with
  status 404) the call ends before step 5, and no session is created although
  \<open>session_id\<close> is omitted.
\<close>

theorem notebook_ask_creations_counterexample:
  "fst (notebook_ask unknown_source_backend 1 2 ''source:1'' ''question'' None None None) = Inl HTTPError
   \<and> length (filter is_session_creation
               (snd (notebook_ask unknown_source_backend 1 2 ''source:1'' ''question'' None None None))) = 0"
  by (simp add: notebook_ask_def notebook_context_def notebook_execute_def step_defs json_result_def
        status_result_def unknown_source_backend_def notebook_backend_def ok_response_def dict_get_def Let_def)

end
